theory Spec2Isabelle
  imports Complex_Main
begin

section \<open>The Poincare ball: data model\<close>

text \<open>
  The embedding follows \<^verbatim>\<open>geomstats/geometry/poincare_ball.py\<close>. The backend's
  floating-point numbers are idealised as real numbers, except in the second model
  of \<^verbatim>\<open>dist\<close>, which rounds every operation to double precision. An array of shape
  \<^verbatim>\<open>[dimension]\<close> is a list of reals, an array of shape \<^verbatim>\<open>[n_samples, dimension]\<close>
  is a list of such rows. Every method first promotes its arguments with
  \<^verbatim>\<open>gs.to_ndarray(_, to_ndim=2)\<close>, so an argument is either kind of array.
  The entries of one row are combined position by position; the rows of all the
  arguments of one call are assumed to have the metric's dimension, as the
  docstrings say, and a mismatch of that axis is not modelled: the statements that
  depend on the entries of two rows assume that the rows have equally many.

  The backend divides by zero without raising, and its result there is not a real
  number. The divisors of the source are: the denominator of \<^verbatim>\<open>mobius_add\<close>, positive
  once the membership tests have passed (lemma \<open>mobius_den_pos\<close>); \<open>1 - \<parallel>base_point\<parallel>\<^sup>2\<close>
  in \<^verbatim>\<open>exp\<close>, zero only for a base point that \<^verbatim>\<open>mobius_add\<close> rejects afterwards;
  \<^verbatim>\<open>norm_tan\<close> in \<^verbatim>\<open>exp\<close>, replaced by \<^verbatim>\<open>EPSILON\<close> when it is zero; \<^verbatim>\<open>norm_add\<close> in
  \<^verbatim>\<open>log\<close>, whose row is overwritten when it is zero; the clipped product in
  \<^verbatim>\<open>dist\<close>, at least \<open>EPSILON\<^sup>2\<close>; and \<open>1 - \<parallel>base_point\<parallel>\<^sup>2\<close> in
  \<^verbatim>\<open>inner_product_matrix\<close>, which nothing guards: the statement about that method
  leaves the rows of squared norm 1 out. The argument of \<^verbatim>\<open>arctanh\<close> in \<^verbatim>\<open>log\<close> is the
  norm of a Moebius sum of two points that passed the membership test, which is
  below 1 (lemma \<open>mobius_add_row_in_ball\<close>).
\<close>

type_synonym vec = "real list"

datatype ndarray = Vector vec | Matrix "vec list"

datatype error = NameError | ValueError | IndexError

record poincare_ball_metric =
  dimension :: nat
  scale :: real

definition TOLERANCE :: real where
  "TOLERANCE = 1 / 10 ^ 6"

definition EPSILON :: real where
  "EPSILON = 1 / 10 ^ 6"

subsection \<open>The numeric backend\<close>

text \<open>
  Modelled from the spec: the module \<^verbatim>\<open>geomstats.backend\<close> (imported as \<^verbatim>\<open>gs\<close>) is
  the external numeric library of the spec's section 6: sums and norms along the
  last axis, clipping, the closeness test, contraction over the last axis and
  broadcasting over the leading batch axis. The closeness test is the fixed
  absolute-plus-relative test of the backend with its default thresholds.
\<close>

definition to_ndarray :: "ndarray \<Rightarrow> vec list" where
  "to_ndarray a = (case a of Vector v \<Rightarrow> [v] | Matrix m \<Rightarrow> m)"

definition sum_sq :: "vec \<Rightarrow> real" where
  "sum_sq x = sum_list (map (\<lambda>v. v\<^sup>2) x)"

definition dot :: "vec \<Rightarrow> vec \<Rightarrow> real" where
  "dot x y = sum_list (map2 (*) x y)"

definition linalg_norm :: "vec \<Rightarrow> real" where
  "linalg_norm x = sqrt (sum_sq x)"

definition isclose :: "real \<Rightarrow> real \<Rightarrow> bool" where
  "isclose a b = (\<bar>a - b\<bar> \<le> 1 / 10 ^ 8 + (1 / 10 ^ 5) * \<bar>b\<bar>)"

definition clip :: "real \<Rightarrow> real \<Rightarrow> real \<Rightarrow> real" where
  "clip x lo hi = min (max x lo) hi"

definition gs_all :: "bool list \<Rightarrow> bool" where
  "gs_all bs = list_all (\<lambda>b. b) bs"

definition gs_any :: "bool list \<Rightarrow> bool" where
  "gs_any bs = list_ex (\<lambda>b. b) bs"

definition broadcast_rows :: "'a list \<Rightarrow> 'b list \<Rightarrow> error + ('a \<times> 'b) list" where
  "broadcast_rows xs ys =
     (if length xs = length ys then Inr (zip xs ys)
      else if length xs = 1 then Inr (map (\<lambda>y. (hd xs, y)) ys)
      else if length ys = 1 then Inr (map (\<lambda>x. (x, hd ys)) xs)
      else Inl ValueError)"

section \<open>PoincareBall.belongs\<close>

definition belongs :: "vec list \<Rightarrow> real \<Rightarrow> bool list" where
  "belongs point tolerance = map (\<lambda>p. sum_sq p < 1 - tolerance) point"

section \<open>PoincareBallMetric.mobius_add\<close>

text \<open>
  One row of the arithmetic part of \<^verbatim>\<open>mobius_add\<close> (source lines 212 to 229). The
  contractions \<^verbatim>\<open>'...i,...k->...k'\<close> and \<^verbatim>\<open>'...i,...k->...i'\<close> sum over an axis of
  length one, so they multiply each entry of a row by the row's scalar.
\<close>

definition mobius_add_row :: "vec \<Rightarrow> vec \<Rightarrow> vec" where
  "mobius_add_row point_a point_b =
     (let norm_point_a = sum_sq point_a;
          norm_point_b = sum_sq point_b;
          sum_prod_a_b = dot point_a point_b;
          add_num_1 = 1 + 2 * sum_prod_a_b + norm_point_b;
          add_num_1 = map (\<lambda>x. add_num_1 * x) point_a;
          add_num_2 = map (\<lambda>x. (1 - norm_point_a) * x) point_b;
          add_nominator = map2 (+) add_num_1 add_num_2;
          add_denominator = 1 + 2 * sum_prod_a_b + norm_point_a * norm_point_b
      in map (\<lambda>x. x * (1 / add_denominator)) add_nominator)"

text \<open>
  The method: both membership tests come first and raise \<^verbatim>\<open>NameError\<close>; the first
  arithmetic on both arguments then broadcasts the batch axis.
\<close>

definition mobius_add :: "ndarray \<Rightarrow> ndarray \<Rightarrow> error + vec list" where
  "mobius_add point_a point_b =
     (let point_a = to_ndarray point_a;
          point_b = to_ndarray point_b;
          point_a_belong = belongs point_a TOLERANCE;
          point_b_belong = belongs point_b TOLERANCE
      in if \<not> gs_all point_a_belong \<or> \<not> gs_all point_b_belong then Inl NameError
         else case broadcast_rows point_a point_b of
                Inl e \<Rightarrow> Inl e
              | Inr rows \<Rightarrow> Inr (map (\<lambda>(a, b). mobius_add_row a b) rows))"

text \<open>The formula of the docstring and of the spec, entry by entry.\<close>

definition mobius_formula :: "vec \<Rightarrow> vec \<Rightarrow> vec" where
  "mobius_formula a b =
     map2 (\<lambda>x y. ((1 + 2 * dot a b + sum_sq b) * x + (1 - sum_sq a) * y)
                  / (1 + 2 * dot a b + sum_sq a * sum_sq b)) a b"

section \<open>PoincareBallMetric.exp\<close>

text \<open>
  One row of source lines 106 to 126 and of the product \<^verbatim>\<open>direction * factor\<close>
  that line 128 passes to \<^verbatim>\<open>mobius_add\<close>.
\<close>

definition exp_operand :: "vec \<Rightarrow> vec \<Rightarrow> vec" where
  "exp_operand tangent_vec base_point =
     (let norm_base_point = linalg_norm base_point;
          den = 1 - norm_base_point\<^sup>2;
          norm_tan = linalg_norm tangent_vec;
          lambda_base_point = 1 / den;
          zero_tan = isclose (dot tangent_vec tangent_vec) 0;
          norm_tan = (if zero_tan then EPSILON else norm_tan);
          direction = map (\<lambda>x. x * (1 / norm_tan)) tangent_vec;
          factor = tanh (lambda_base_point * norm_tan)
      in map (\<lambda>x. x * factor) direction)"

text \<open>
  The method. The product \<^verbatim>\<open>lambda_base_point * norm_tan\<close> of line 126 is the first
  operation on both arguments and broadcasts the batch axis. After \<^verbatim>\<open>mobius_add\<close>
  the rows of the mask \<^verbatim>\<open>zero_tan\<close> (one entry per row of \<^verbatim>\<open>tangent_vec\<close>) index both
  the result and \<^verbatim>\<open>base_point\<close>, which raises \<^verbatim>\<open>IndexError\<close> unless the two
  arguments have the same number of rows.
\<close>

definition exp_ball :: "ndarray \<Rightarrow> ndarray \<Rightarrow> error + vec list" where
  "exp_ball tangent_vec base_point =
     (let tangent_vec = to_ndarray tangent_vec;
          base_point = to_ndarray base_point
      in case broadcast_rows tangent_vec base_point of
           Inl e \<Rightarrow> Inl e
         | Inr rows \<Rightarrow>
            (let operand = map (\<lambda>(v, b). exp_operand v b) rows
             in case mobius_add (Matrix base_point) (Matrix operand) of
                  Inl e \<Rightarrow> Inl e
                | Inr exp_rows \<Rightarrow>
                   (let zero_tan = map (\<lambda>v. isclose (dot v v) 0) tangent_vec
                    in if gs_any zero_tan
                       then (if length tangent_vec \<noteq> length base_point then Inl IndexError
                             else Inr (map (\<lambda>(z, e, b). if z then b else e)
                                         (zip zero_tan (zip exp_rows base_point))))
                       else Inr exp_rows)))"

section \<open>PoincareBallMetric.log\<close>

text \<open>
  One row of source lines 162 to 175. Where \<^verbatim>\<open>norm_add\<close> is zero the backend's
  quotient is not a number; the mask of line 173 holds there and the row is
  overwritten, so the value of the quotient at zero does not reach the result.
\<close>

definition log_row :: "vec \<Rightarrow> vec \<Rightarrow> vec" where
  "log_row add_base_point base_point =
     (let norm_add = linalg_norm add_base_point;
          norm_base_point = linalg_norm base_point;
          log_scalar = (1 - norm_base_point\<^sup>2) * artanh norm_add;
          log_vec = map (\<lambda>x. log_scalar * (x / norm_add)) add_base_point;
          mask_0 = isclose norm_add 0
      in if mask_0 then map (\<lambda>x. 0) log_vec else log_vec)"

definition log_ball :: "ndarray \<Rightarrow> ndarray \<Rightarrow> error + vec list" where
  "log_ball point base_point =
     (let base_point = to_ndarray base_point;
          point = to_ndarray point
      in case mobius_add (Matrix (map (map uminus) base_point)) (Matrix point) of
           Inl e \<Rightarrow> Inl e
         | Inr add_base_point \<Rightarrow>
            (case broadcast_rows add_base_point base_point of
               Inl e \<Rightarrow> Inl e
             | Inr rows \<Rightarrow> Inr (map (\<lambda>(u, b). log_row u b) rows)))"

section \<open>PoincareBallMetric.dist\<close>

text \<open>
  One row of source lines 251 to 261, first with every operation exact: the value
  of the formula that \<^verbatim>\<open>dist\<close> evaluates.
\<close>

definition dist_row :: "poincare_ball_metric \<Rightarrow> vec \<Rightarrow> vec \<Rightarrow> real" where
  "dist_row self point_a point_b =
     (let point_a_norm = clip (sum_sq point_a) 0 (1 - EPSILON);
          point_b_norm = clip (sum_sq point_b) 0 (1 - EPSILON);
          diff_norm = sum_sq (map2 (-) point_a point_b);
          norm_function = 1 + 2 * diff_norm / ((1 - point_a_norm) * (1 - point_b_norm));
          d = ln (norm_function + sqrt (norm_function\<^sup>2 - 1))
      in d * scale self)"

text \<open>The result has shape \<^verbatim>\<open>[n_samples, 1]\<close>: one row of one entry per pair.\<close>

definition dist_ball :: "poincare_ball_metric \<Rightarrow> ndarray \<Rightarrow> ndarray \<Rightarrow> error + vec list" where
  "dist_ball self point_a point_b =
     (let point_a = to_ndarray point_a;
          point_b = to_ndarray point_b
      in case broadcast_rows point_a point_b of
           Inl e \<Rightarrow> Inl e
         | Inr rows \<Rightarrow> Inr (map (\<lambda>(a, b). [dist_row self a b]) rows))"

subsection \<open>The same operations in double precision\<close>

text \<open>
  Modelled from the spec: the backend computes in IEEE double precision, where every
  operation returns the double nearest to its exact result, ties going to the even
  significand. \<open>round_double\<close> is that rounding for a significand of 53 bits; the
  range of the exponent is not bounded, so overflow and subnormal numbers are not
  modelled. The sum along the last axis adds the entries from left to right, and
  the square root and the logarithm are taken as correctly rounded; the
  statements about this model below do not depend on the order of the sum, and
  they use the square root at 0 and the logarithm at 1 only, where both are exact.
\<close>

definition round_even :: "real \<Rightarrow> int" where
  "round_even y =
     (let f = \<lfloor>y\<rfloor>; r = y - of_int f
      in if r < 1 / 2 then f else if 1 / 2 < r then f + 1 else if even f then f else f + 1)"

definition round_double :: "real \<Rightarrow> real" where
  "round_double x =
     (if x = 0 then 0
      else (let e = \<lfloor>log 2 \<bar>x\<bar>\<rfloor>; ulp = 2 powr (of_int e - 52)
            in ulp * of_int (round_even (x / ulp))))"

text \<open>One row of source lines 251 to 261 with every operation rounded.\<close>

definition sum_sq_double :: "vec \<Rightarrow> real" where
  "sum_sq_double x = foldl (\<lambda>s v. round_double (s + round_double (v * v))) 0 x"

definition dist_row_double :: "poincare_ball_metric \<Rightarrow> vec \<Rightarrow> vec \<Rightarrow> real" where
  "dist_row_double self point_a point_b =
     (let upper = round_double (1 - round_double EPSILON);
          point_a_norm = clip (sum_sq_double point_a) 0 upper;
          point_b_norm = clip (sum_sq_double point_b) 0 upper;
          diff_norm = sum_sq_double (map2 (\<lambda>x y. round_double (x - y)) point_a point_b);
          norm_function = round_double (1 + round_double (round_double (2 * diff_norm)
            / round_double (round_double (1 - point_a_norm) * round_double (1 - point_b_norm))));
          d = round_double (ln (round_double (norm_function
            + round_double (sqrt (round_double (round_double (norm_function * norm_function) - 1))))))
      in round_double (d * scale self))"

definition dist_ball_double :: "poincare_ball_metric \<Rightarrow> ndarray \<Rightarrow> ndarray \<Rightarrow> error + vec list" where
  "dist_ball_double self point_a point_b =
     (let point_a = to_ndarray point_a;
          point_b = to_ndarray point_b
      in case broadcast_rows point_a point_b of
           Inl e \<Rightarrow> Inl e
         | Inr rows \<Rightarrow> Inr (map (\<lambda>(a, b). [dist_row_double self a b]) rows))"

section \<open>PoincareBallMetric.retraction\<close>

definition retraction_row :: "vec \<Rightarrow> vec \<Rightarrow> vec" where
  "retraction_row tangent_vec base_point =
     (let retraction_factor = ((1 - sum_sq base_point)\<^sup>2) / 4;
          retraction_factor = replicate (length base_point) retraction_factor
      in map2 (-) base_point (map2 (*) retraction_factor tangent_vec))"

text \<open>
  The membership test is applied to \<^verbatim>\<open>base_point\<close> as given; on a single vector it
  is one boolean, the same as on the batch of that one row.
\<close>

definition retraction :: "ndarray \<Rightarrow> ndarray \<Rightarrow> error + vec list" where
  "retraction tangent_vec base_point =
     (let base_point_belong = belongs (to_ndarray base_point) TOLERANCE
      in if \<not> gs_all base_point_belong then Inl NameError
         else (let tangent_vec = to_ndarray tangent_vec;
                   base_point = to_ndarray base_point
               in case broadcast_rows tangent_vec base_point of
                    Inl e \<Rightarrow> Inl e
                  | Inr rows \<Rightarrow> Inr (map (\<lambda>(t, b). retraction_row t b) rows)))"

text \<open>The formula of the spec, entry by entry.\<close>

definition retraction_formula :: "vec \<Rightarrow> vec \<Rightarrow> vec" where
  "retraction_formula tangent_vec base_point =
     map2 (\<lambda>b t. b - ((1 - sum_sq base_point)\<^sup>2 / 4) * t) base_point tangent_vec"

section \<open>PoincareBallMetric.inner_product_matrix\<close>

definition zeros :: "nat \<Rightarrow> nat \<Rightarrow> vec list" where
  "zeros n d = replicate n (replicate d 0)"

definition eye :: "nat \<Rightarrow> vec list" where
  "eye n = map (\<lambda>i. map (\<lambda>j. if i = j then 1 else 0) [0..<n]) [0..<n]"

text \<open>
  The argument is a batch of rows or absent. There is no membership test and no
  \<^verbatim>\<open>raise\<close>: the result is a plain value, one matrix per row.
\<close>

definition inner_product_matrix :: "poincare_ball_metric \<Rightarrow> vec list option \<Rightarrow> vec list list" where
  "inner_product_matrix self base_point =
     (let base_point = (case base_point of None \<Rightarrow> zeros 1 (dimension self) | Some p \<Rightarrow> p);
          n_sample = length base_point;
          lambda_base = map (\<lambda>x. (2 / (1 - dot x x))\<^sup>2) base_point;
          reshaped_lambda_base =
            map2 (\<lambda>x l. replicate (length x) (replicate (length x) l)) base_point lambda_base;
          identity = eye (dimension self);
          reshaped_identity = replicate n_sample identity
      in map2 (map2 (map2 (*))) reshaped_lambda_base reshaped_identity)"

text \<open>The matrix \<open>c \<cdot> I\<^sub>d\<close>.\<close>

definition scaled_identity :: "real \<Rightarrow> nat \<Rightarrow> vec list" where
  "scaled_identity c d = map (map (\<lambda>e. c * e)) (eye d)"

section \<open>Row-wise summaries of exp and log\<close>

text \<open>
  What \<^verbatim>\<open>exp\<close> and \<^verbatim>\<open>log\<close> compute for one pair of rows once the membership
  tests have passed; the lemmas \<open>exp_ball_rows\<close> and \<open>log_ball_rows\<close> below derive
  them from the methods.
\<close>

definition exp_row :: "vec \<Rightarrow> vec \<Rightarrow> vec" where
  "exp_row v b = (if isclose (dot v v) 0 then b else mobius_add_row b (exp_operand v b))"

definition log_of_row :: "vec \<Rightarrow> vec \<Rightarrow> vec" where
  "log_of_row p b = log_row (mobius_add_row (map uminus b) p) b"

section \<open>The argument of the inverse hyperbolic cosine in dist\<close>

text \<open>
  The value of \<^verbatim>\<open>norm_function\<close> in \<^verbatim>\<open>dist\<close> when clipping changes nothing, which
  is so for the points that pass the membership test (lemma \<open>dist_row_arcosh\<close>).
\<close>

definition cosh_dist :: "vec \<Rightarrow> vec \<Rightarrow> real" where
  "cosh_dist a b = 1 + 2 * sum_sq (map2 (-) a b) / ((1 - sum_sq a) * (1 - sum_sq b))"

section \<open>The round trip through exp and log\<close>

text \<open>
  \<^verbatim>\<open>log(exp(tangent_vec, base_point), base_point)\<close>: an error of \<^verbatim>\<open>exp\<close> ends the
  computation, otherwise \<^verbatim>\<open>log\<close> runs on the batch that \<^verbatim>\<open>exp\<close> returned.
\<close>

definition log_exp :: "ndarray \<Rightarrow> ndarray \<Rightarrow> error + vec list" where
  "log_exp tangent_vec base_point =
     (case exp_ball tangent_vec base_point of
        Inl e \<Rightarrow> Inl e
      | Inr p \<Rightarrow> log_ball (Matrix p) base_point)"

section \<open>Auxiliary facts about the backend operations\<close>

lemma gs_all_belongs: "gs_all (belongs ps t) = (\<forall>p\<in>set ps. sum_sq p < 1 - t)"
  by (simp add: gs_all_def belongs_def list_all_iff)

lemma to_ndarray_simps [simp]: "to_ndarray (Vector v) = [v]" "to_ndarray (Matrix m) = m"
  by (simp_all add: to_ndarray_def)

lemma broadcast_rows_same: "length xs = length ys \<Longrightarrow> broadcast_rows xs ys = Inr (zip xs ys)"
  by (simp add: broadcast_rows_def)

lemma zip_take_right: "zip xs (take (length xs) ys) = zip xs ys"
proof (induction xs arbitrary: ys)
  case Nil
  show ?case by simp
next
  case (Cons x xs)
  show ?case by (cases ys) (simp_all add: Cons.IH)
qed

lemma map2_replicate_left: "length ys = n \<Longrightarrow> map2 f (replicate n c) ys = map (f c) ys"
  by (induction ys arbitrary: n) auto

lemma map2_replicate_right: "length xs = n \<Longrightarrow> map2 f xs (replicate n c) = map (\<lambda>x. f x c) xs"
  by (induction xs arbitrary: n) auto

lemma map2_map_right: "map2 f xs (map g xs) = map (\<lambda>x. f x (g x)) xs"
  by (induction xs) auto

lemma dot_self: "dot x x = sum_sq x"
  by (simp add: dot_def sum_sq_def power2_eq_square
      map2_map_map [where f = "\<lambda>x. x" and g = "\<lambda>x. x", simplified])

lemma gs_any_map: "gs_any (map f xs) = (\<exists>x\<in>set xs. f x)"
  by (simp add: gs_any_def list_ex_iff)

lemma sum_sq_uminus: "sum_sq (map uminus b) = sum_sq b"
  by (simp add: sum_sq_def comp_def)

lemma dot_simps [simp]:
  "dot [] b = 0" "dot a [] = 0" "dot (x # a) (y # b) = x * y + dot a b"
  by (simp_all add: dot_def)

lemma sum_sq_simps [simp]: "sum_sq [] = 0" "sum_sq (x # xs) = x\<^sup>2 + sum_sq xs"
  by (simp_all add: sum_sq_def)

lemma dot_uminus_left: "dot (map uminus a) b = - dot a b"
  by (induction a b rule: list_induct2') simp_all

lemma map2_const_left: "map2 f (map g ys) ys = map (\<lambda>y. f (g y) y) ys"
  by (induction ys) auto

section \<open>Moebius addition: the formula and the domain error\<close>

lemma mobius_add_row_formula: "mobius_add_row a b = mobius_formula a b"
  by (simp add: mobius_add_row_def mobius_formula_def Let_def map2_map_map
      zip_map_map map_zip_map map_zip_map2 divide_inverse split_def)

text \<open>
  Claim C1. When every row of both arguments passes the membership test with the
  default tolerance, \<^verbatim>\<open>mobius_add\<close> raises nothing and each row of its result is
  \<open>[(1 + 2\<langle>a,b\<rangle> + \<parallel>b\<parallel>\<^sup>2) a + (1 - \<parallel>a\<parallel>\<^sup>2) b] / [1 + 2\<langle>a,b\<rangle> + \<parallel>a\<parallel>\<^sup>2 \<parallel>b\<parallel>\<^sup>2]\<close>
  for the rows \<open>a\<close>, \<open>b\<close> at that position. The two rows at one position have the
  same number of entries, the dimension. A pair of single points is the case of two
  batches of one row.
\<close>

theorem mobius_add_formula:
  assumes "\<forall>a\<in>set (to_ndarray A). sum_sq a < 1 - TOLERANCE"
    and "\<forall>b\<in>set (to_ndarray B). sum_sq b < 1 - TOLERANCE"
    and "length (to_ndarray A) = length (to_ndarray B)"
    and "\<forall>(a, b)\<in>set (zip (to_ndarray A) (to_ndarray B)). length a = length b"
  shows "mobius_add A B = Inr (map2 mobius_formula (to_ndarray A) (to_ndarray B))"
  using assms
  by (simp add: mobius_add_def Let_def gs_all_belongs broadcast_rows_same
      mobius_add_row_formula split_def)

theorem mobius_add_formula_witness:
  "mobius_add (Vector [1/2, 0]) (Vector [0, 1/4]) = Inr [[34/65, 12/65]]"
  using mobius_add_formula [of "Vector [1/2, 0]" "Vector [0, 1/4]"]
  by (simp add: TOLERANCE_def sum_sq_def mobius_formula_def dot_def power2_eq_square)

text \<open>
  Claim C2. \<^verbatim>\<open>mobius_add\<close> returns the domain error \<^verbatim>\<open>NameError\<close>, and no result,
  as soon as some row of either argument has squared norm at least 1;
  \<^verbatim>\<open>retraction\<close> does so as soon as some row of \<^verbatim>\<open>base_point\<close> has. Nothing is
  clamped: the outcome is the error alone.
\<close>

theorem domain_error:
  "((\<exists>a\<in>set (to_ndarray A). 1 \<le> sum_sq a) \<or> (\<exists>b\<in>set (to_ndarray B). 1 \<le> sum_sq b)
      \<longrightarrow> mobius_add A B = Inl NameError)
   \<and> ((\<exists>b\<in>set (to_ndarray B). 1 \<le> sum_sq b) \<longrightarrow> retraction T B = Inl NameError)"
  by (auto simp add: mobius_add_def retraction_def Let_def gs_all_belongs TOLERANCE_def)

theorem domain_error_witness:
  "mobius_add (Vector [1, 0]) (Vector [0, 0]) = Inl NameError
   \<and> mobius_add (Vector [0, 0]) (Matrix [[0, 0], [3/5, 4/5]]) = Inl NameError
   \<and> retraction (Vector [1, 1]) (Vector [0, 2]) = Inl NameError"
  using domain_error [of "Vector [1, 0]" "Vector [0, 0]" "Vector [1, 1]"]
    domain_error [of "Vector [0, 0]" "Matrix [[0, 0], [3/5, 4/5]]" "Vector [1, 1]"]
    domain_error [of "Vector [0, 0]" "Vector [0, 2]" "Vector [1, 1]"]
  by (simp add: sum_sq_def power2_eq_square)

section \<open>The retraction\<close>

lemma retraction_row_formula: "retraction_row t b = retraction_formula t b"
  by (simp add: retraction_row_def retraction_formula_def Let_def map2_map_map
      zip_replicate1 map_zip_map2 zip_map2 split_def zip_take_right)

text \<open>
  Claim C7. When every row of \<^verbatim>\<open>base_point\<close> passes the membership test and has as
  many entries as the row of \<^verbatim>\<open>tangent_vec\<close> at its position,
  \<^verbatim>\<open>retraction\<close> returns, row by row, \<open>base_point - [(1 - \<parallel>base_point\<parallel>\<^sup>2)\<^sup>2 / 4] \<cdot> tangent_vec\<close>
  for any tangent vector. The result is that value as it is, not a projection of
  it onto the ball: from the origin the tangent vector \<open>(-8, 0)\<close> leads to
  \<open>(2, 0)\<close>, outside the unit ball.
\<close>

theorem retraction_formula_not_projected:
  "(gs_all (belongs (to_ndarray B) TOLERANCE) \<and> length (to_ndarray T) = length (to_ndarray B)
      \<and> (\<forall>(t, b)\<in>set (zip (to_ndarray T) (to_ndarray B)). length t = length b)
      \<longrightarrow> retraction T B = Inr (map2 retraction_formula (to_ndarray T) (to_ndarray B)))
   \<and> (\<exists>t b r. gs_all (belongs [b] TOLERANCE) \<and> retraction (Vector t) (Vector b) = Inr [r]
         \<and> \<not> sum_sq r < 1)"
proof (intro conjI impI)
  assume "gs_all (belongs (to_ndarray B) TOLERANCE) \<and> length (to_ndarray T) = length (to_ndarray B)
      \<and> (\<forall>(t, b)\<in>set (zip (to_ndarray T) (to_ndarray B)). length t = length b)"
  then show "retraction T B = Inr (map2 retraction_formula (to_ndarray T) (to_ndarray B))"
    by (simp add: retraction_def Let_def broadcast_rows_same retraction_row_formula split_def)
next
  have "gs_all (belongs [[0, 0]] TOLERANCE)"
    by (simp add: gs_all_belongs sum_sq_def TOLERANCE_def)
  moreover have "retraction (Vector [- 8, 0]) (Vector [0, 0]) = Inr [[2, 0]]"
    by (simp add: retraction_def Let_def gs_all_belongs sum_sq_def TOLERANCE_def
        broadcast_rows_def retraction_row_def)
  moreover have "\<not> sum_sq [2, 0] < 1"
    by (simp add: sum_sq_def)
  ultimately show "\<exists>t b r. gs_all (belongs [b] TOLERANCE)
      \<and> retraction (Vector t) (Vector b) = Inr [r] \<and> \<not> sum_sq r < 1"
    by blast
qed

theorem retraction_formula_not_projected_witness:
  "retraction (Vector [1, 2]) (Vector [1/2, 1/2]) = Inr [[7/16, 3/8]]"
  using retraction_formula_not_projected [of "Vector [1/2, 1/2]" "Vector [1, 2]"]
  by (simp add: gs_all_belongs sum_sq_def TOLERANCE_def retraction_formula_def power2_eq_square)

section \<open>The inner-product matrix\<close>

lemma eye_length: "length (eye d) = d" "\<forall>r\<in>set (eye d). length r = d"
  by (auto simp add: eye_def)

lemma inner_product_matrix_row:
  "map2 (map2 (*)) (replicate d (replicate d l)) (eye d) = scaled_identity l d"
proof -
  have "map2 (map2 (*)) (replicate d (replicate d l)) (eye d)
        = map (map2 (*) (replicate d l)) (eye d)"
    by (simp add: map2_replicate_left eye_length)
  also have "\<dots> = map (map ((*) l)) (eye d)"
    by (rule map_cong) (simp_all add: map2_replicate_left eye_length)
  finally show ?thesis by (simp add: scaled_identity_def)
qed

text \<open>
  Claim C8. For every batch of rows of the metric's dimension, inside the ball or
  not, \<^verbatim>\<open>inner_product_matrix\<close> returns for each row \<open>x\<close> the matrix
  \<open>\<lambda>(x)\<^sup>2 \<cdot> I\<^sub>d\<close> with \<open>\<lambda>(x) = 2 / (1 - \<parallel>x\<parallel>\<^sup>2)\<close>; it has no error outcome. The
  rows are those where \<open>\<lambda>\<close> is defined, \<open>\<parallel>x\<parallel>\<^sup>2 \<noteq> 1\<close>. Without an argument it returns
  the single matrix \<open>4 \<cdot> I\<^sub>d\<close>.
\<close>

theorem inner_product_matrix_formula:
  "((\<forall>x\<in>set B. length x = dimension self \<and> sum_sq x \<noteq> 1) \<longrightarrow>
      inner_product_matrix self (Some B)
        = map (\<lambda>x. scaled_identity ((2 / (1 - sum_sq x))\<^sup>2) (dimension self)) B)
   \<and> inner_product_matrix self None = [scaled_identity 4 (dimension self)]"
proof (intro conjI impI)
  assume wf: "\<forall>x\<in>set B. length x = dimension self \<and> sum_sq x \<noteq> 1"
  have "inner_product_matrix self (Some B)
        = map (\<lambda>x. map2 (map2 (*))
                 (replicate (length x) (replicate (length x) ((2 / (1 - sum_sq x))\<^sup>2)))
                 (eye (dimension self))) B"
    by (simp add: inner_product_matrix_def Let_def map2_map_right map2_replicate_right dot_self)
  also have "\<dots> = map (\<lambda>x. scaled_identity ((2 / (1 - sum_sq x))\<^sup>2) (dimension self)) B"
    by (rule map_cong) (simp_all add: wf inner_product_matrix_row)
  finally show "inner_product_matrix self (Some B)
        = map (\<lambda>x. scaled_identity ((2 / (1 - sum_sq x))\<^sup>2) (dimension self)) B" .
next
  have "inner_product_matrix self None
        = [map2 (map2 (*)) (replicate (dimension self) (replicate (dimension self) 4))
             (eye (dimension self))]"
    by (simp add: inner_product_matrix_def Let_def zeros_def dot_self sum_sq_def
        sum_list_replicate)
  then show "inner_product_matrix self None = [scaled_identity 4 (dimension self)]"
    by (simp add: inner_product_matrix_row)
qed

theorem inner_product_matrix_formula_witness:
  "inner_product_matrix \<lparr>dimension = 2, scale = 1\<rparr> (Some [[1/2, 0], [0, 3]])
     = [[[64/9, 0], [0, 64/9]], [[1/16, 0], [0, 1/16]]]
   \<and> inner_product_matrix \<lparr>dimension = 2, scale = 1\<rparr> None = [[[4, 0], [0, 4]]]"
  using inner_product_matrix_formula [of "[[1/2, 0], [0, 3]]" "\<lparr>dimension = 2, scale = 1\<rparr>"]
  by (simp add: scaled_identity_def eye_def sum_sq_def power2_eq_square upt_rec)

section \<open>The exponential and the logarithm, row by row\<close>

lemma mobius_add_rows:
  assumes "\<forall>a\<in>set A. sum_sq a < 1 - TOLERANCE" "\<forall>b\<in>set B. sum_sq b < 1 - TOLERANCE"
    and "length A = length B"
  shows "mobius_add (Matrix A) (Matrix B) = Inr (map2 mobius_add_row A B)"
  using assms by (simp add: mobius_add_def Let_def gs_all_belongs broadcast_rows_same)

lemma broadcast_rows_cases:
  "length xs = length ys \<or> length xs = 1 \<or> length ys = 1
    \<Longrightarrow> \<exists>rows. broadcast_rows xs ys = Inr rows"
  by (auto simp add: broadcast_rows_def)

lemma mobius_add_invalid:
  "(\<exists>a\<in>set A. \<not> sum_sq a < 1 - TOLERANCE) \<or> (\<exists>b\<in>set B. \<not> sum_sq b < 1 - TOLERANCE)
    \<Longrightarrow> mobius_add (Matrix A) (Matrix B) = Inl NameError"
  by (auto simp add: mobius_add_def Let_def gs_all_belongs)

lemma exp_ball_rows:
  assumes len: "length (to_ndarray T) = length (to_ndarray B)"
    and B: "\<forall>b\<in>set (to_ndarray B). sum_sq b < 1 - TOLERANCE"
    and O: "\<forall>(v, b)\<in>set (zip (to_ndarray T) (to_ndarray B)). sum_sq (exp_operand v b) < 1 - TOLERANCE"
  shows "exp_ball T B = Inr (map2 exp_row (to_ndarray T) (to_ndarray B))"
proof -
  define T' where "T' = to_ndarray T"
  define B' where "B' = to_ndarray B"
  define ops where "ops = map (\<lambda>(v, b). exp_operand v b) (zip T' B')"
  have lops: "length ops = length B'"
    using len by (simp add: ops_def T'_def B'_def)
  have "\<forall>x\<in>set ops. sum_sq x < 1 - TOLERANCE"
    using O by (auto simp add: ops_def T'_def B'_def)
  then have m: "mobius_add (Matrix B') (Matrix ops) = Inr (map2 mobius_add_row B' ops)"
    using B lops by (simp add: mobius_add_rows B'_def)
  have over: "map (\<lambda>(z, e, b). if z then b else e)
          (zip (map (\<lambda>v. isclose (dot v v) 0) T') (zip (map2 mobius_add_row B' ops) B'))
        = map2 exp_row T' B'"
    using len lops
    by (intro nth_equalityI) (simp_all add: T'_def B'_def ops_def exp_row_def)
  have plain: "\<not> (\<exists>v\<in>set T'. isclose (dot v v) 0) \<Longrightarrow> map2 mobius_add_row B' ops = map2 exp_row T' B'"
    using len lops
    by (intro nth_equalityI) (simp_all add: T'_def B'_def ops_def exp_row_def)
  show ?thesis
    using len m over plain
    by (simp add: exp_ball_def Let_def broadcast_rows_same gs_any_map
        T'_def [symmetric] B'_def [symmetric] ops_def [symmetric])
qed

lemma log_ball_rows:
  assumes len: "length (to_ndarray P) = length (to_ndarray B)"
    and B: "\<forall>b\<in>set (to_ndarray B). sum_sq b < 1 - TOLERANCE"
    and P: "\<forall>p\<in>set (to_ndarray P). sum_sq p < 1 - TOLERANCE"
  shows "log_ball P B = Inr (map2 log_of_row (to_ndarray P) (to_ndarray B))"
proof -
  define P' where "P' = to_ndarray P"
  define B' where "B' = to_ndarray B"
  have "\<forall>b\<in>set (map (map uminus) B'). sum_sq b < 1 - TOLERANCE"
    using B by (simp add: B'_def sum_sq_uminus)
  then have m: "mobius_add (Matrix (map (map uminus) B')) (Matrix P')
      = Inr (map2 mobius_add_row (map (map uminus) B') P')"
    using P len by (simp add: mobius_add_rows P'_def B'_def)
  have rows: "map (\<lambda>(u, b). log_row u b) (zip (map2 mobius_add_row (map (map uminus) B') P') B')
      = map2 log_of_row P' B'"
    using len
    by (intro nth_equalityI) (simp_all add: P'_def B'_def log_of_row_def)
  show ?thesis
    using len m rows
    by (simp add: log_ball_def Let_def broadcast_rows_same
        P'_def [symmetric] B'_def [symmetric])
qed

section \<open>The exponential at the zero vector, the logarithm of coincident points\<close>

lemma sum_sq_replicate_0 [simp]: "sum_sq (replicate n 0) = 0"
  by (simp add: sum_sq_def sum_list_replicate)

lemma dot_replicate_0 [simp]: "dot (replicate n 0) b = 0"
  by (simp add: dot_def zip_replicate1 comp_def split_def sum_list_0)

lemma exp_operand_zero: "exp_operand (replicate n 0) b = replicate n 0"
  by (simp add: exp_operand_def Let_def isclose_def map_replicate_const)

lemma exp_row_zero: "exp_row (replicate n 0) b = b"
  by (simp add: exp_row_def isclose_def)

text \<open>
  Claim C3. When every row of \<^verbatim>\<open>base_point\<close> passes the membership test and every
  row of \<^verbatim>\<open>tangent_vec\<close> is the zero vector, \<^verbatim>\<open>exp\<close> returns \<^verbatim>\<open>base_point\<close> itself,
  exactly: the rows whose squared norm is close to zero are overwritten with the
  rows of \<^verbatim>\<open>base_point\<close> after the formula with the norm replaced by \<^verbatim>\<open>EPSILON\<close> has
  been evaluated.
\<close>

theorem exp_zero_vector:
  assumes "\<forall>b\<in>set (to_ndarray B). sum_sq b < 1 - TOLERANCE"
    and "to_ndarray T = map (\<lambda>b. replicate (length b) 0) (to_ndarray B)"
  shows "exp_ball T B = Inr (to_ndarray B)"
proof -
  have "exp_ball T B = Inr (map2 exp_row (to_ndarray T) (to_ndarray B))"
  proof (rule exp_ball_rows)
    show "length (to_ndarray T) = length (to_ndarray B)"
      using assms(2) by simp
    show "\<forall>b\<in>set (to_ndarray B). sum_sq b < 1 - TOLERANCE"
      using assms(1) .
    show "\<forall>(v, b)\<in>set (zip (to_ndarray T) (to_ndarray B)). sum_sq (exp_operand v b) < 1 - TOLERANCE"
      by (auto simp add: assms(2) zip_map1 exp_operand_zero TOLERANCE_def)
  qed
  also have "map2 exp_row (to_ndarray T) (to_ndarray B) = to_ndarray B"
    by (simp add: assms(2) map2_const_left exp_row_zero)
  finally show ?thesis .
qed

theorem exp_zero_vector_witness:
  "exp_ball (Vector [0, 0]) (Vector [3/5, 1/5]) = Inr [[3/5, 1/5]]"
  using exp_zero_vector [of "Vector [3/5, 1/5]" "Vector [0, 0]"]
  by (simp add: TOLERANCE_def power2_eq_square)

lemma mobius_add_row_neg_self: "mobius_add_row (map uminus b) b = replicate (length b) 0"
proof -
  have "mobius_add_row (map uminus b) b = map (\<lambda>x. 0) b"
    by (simp add: mobius_add_row_formula mobius_formula_def zip_map1 dot_uminus_left
        sum_sq_uminus dot_self zip_same_conv_map comp_def)
  then show ?thesis by (simp add: map_replicate_const)
qed

lemma log_of_row_self: "log_of_row b b = replicate (length b) 0"
  by (simp add: log_of_row_def mobius_add_row_neg_self log_row_def Let_def linalg_norm_def
      isclose_def map_replicate_const)

text \<open>
  Claim C4. When every row of \<^verbatim>\<open>base_point\<close> passes the membership test,
  \<^verbatim>\<open>log(base_point, base_point)\<close> returns zero vectors, exactly: the Moebius sum of
  \<open>- base_point\<close> and \<open>base_point\<close> is the zero vector, its norm is close to
  zero, and the row is overwritten with zeros instead of the quotient by that
  norm.
\<close>

theorem log_coincident:
  assumes "\<forall>b\<in>set (to_ndarray B). sum_sq b < 1 - TOLERANCE"
  shows "log_ball B B = Inr (map (\<lambda>b. replicate (length b) 0) (to_ndarray B))"
  using assms log_ball_rows [of B B]
  by (simp add: map2_const_left [where g = "\<lambda>x. x", simplified] log_of_row_self)

theorem log_coincident_witness:
  "log_ball (Vector [3/5, 1/5]) (Vector [3/5, 1/5]) = Inr [[0, 0]]"
  using log_coincident [of "Vector [3/5, 1/5]"]
  by (simp add: TOLERANCE_def power2_eq_square)

section \<open>Domain errors of exp and log\<close>

text \<open>
  Claim C9. \<^verbatim>\<open>exp\<close> returns the domain error \<^verbatim>\<open>NameError\<close> whenever some row of
  \<^verbatim>\<open>base_point\<close> fails the membership test (the batch sizes being equal, or one of
  them 1, as broadcasting needs), through its call of \<^verbatim>\<open>mobius_add\<close>; \<^verbatim>\<open>log\<close>
  returns it whenever some row of \<^verbatim>\<open>point\<close> or of \<^verbatim>\<open>base_point\<close> fails the test.
\<close>

theorem exp_log_domain_error:
  "((\<exists>b\<in>set (to_ndarray B). \<not> sum_sq b < 1 - TOLERANCE)
      \<and> (length (to_ndarray T) = length (to_ndarray B)
           \<or> length (to_ndarray T) = 1 \<or> length (to_ndarray B) = 1)
      \<longrightarrow> exp_ball T B = Inl NameError)
   \<and> ((\<exists>p\<in>set (to_ndarray P). \<not> sum_sq p < 1 - TOLERANCE)
        \<or> (\<exists>b\<in>set (to_ndarray B). \<not> sum_sq b < 1 - TOLERANCE)
      \<longrightarrow> log_ball P B = Inl NameError)"
proof (intro conjI impI)
  assume h: "(\<exists>b\<in>set (to_ndarray B). \<not> sum_sq b < 1 - TOLERANCE)
      \<and> (length (to_ndarray T) = length (to_ndarray B)
           \<or> length (to_ndarray T) = 1 \<or> length (to_ndarray B) = 1)"
  then obtain rows where "broadcast_rows (to_ndarray T) (to_ndarray B) = Inr rows"
    using broadcast_rows_cases by blast
  moreover have "\<And>ops. mobius_add (Matrix (to_ndarray B)) (Matrix ops) = Inl NameError"
    using h by (intro mobius_add_invalid) blast
  ultimately show "exp_ball T B = Inl NameError"
    by (simp add: exp_ball_def Let_def)
next
  assume h: "(\<exists>p\<in>set (to_ndarray P). \<not> sum_sq p < 1 - TOLERANCE)
        \<or> (\<exists>b\<in>set (to_ndarray B). \<not> sum_sq b < 1 - TOLERANCE)"
  have "mobius_add (Matrix (map (map uminus) (to_ndarray B))) (Matrix (to_ndarray P)) = Inl NameError"
    using h by (intro mobius_add_invalid) (auto simp add: sum_sq_uminus)
  then show "log_ball P B = Inl NameError"
    by (simp add: log_ball_def Let_def)
qed

theorem exp_log_domain_error_witness:
  "exp_ball (Vector [1/10, 0]) (Vector [1, 0]) = Inl NameError
   \<and> exp_ball (Matrix [[1/10, 0], [0, 0]]) (Vector [999/1000, 1/10]) = Inl NameError
   \<and> log_ball (Vector [0, 1]) (Vector [0, 0]) = Inl NameError
   \<and> log_ball (Vector [0, 0]) (Vector [4/5, 3/5]) = Inl NameError"
  using exp_log_domain_error [of "Vector [1, 0]" "Vector [1/10, 0]" "Vector [0, 0]"]
    exp_log_domain_error [of "Vector [999/1000, 1/10]" "Matrix [[1/10, 0], [0, 0]]" "Vector [0, 0]"]
    exp_log_domain_error [of "Vector [0, 0]" "Vector [0, 0]" "Vector [0, 1]"]
    exp_log_domain_error [of "Vector [4/5, 3/5]" "Vector [0, 0]" "Vector [0, 0]"]
  by (simp add: TOLERANCE_def power2_eq_square)

section \<open>The exponential is partial on the ball\<close>

lemma tanh_of_nat: "tanh (real n) = 1 - 2 / (exp 1 ^ (2 * n) + 1)"
proof -
  define E where "E = exp (2 * real n)"
  have E: "0 < E" by (simp add: E_def)
  have "exp (- 2 * real n) = 1 / E"
    by (simp add: E_def exp_minus inverse_eq_divide)
  then have "tanh (real n) = (1 - 1 / E) / (1 + 1 / E)"
    by (simp add: tanh_real_altdef)
  also have "\<dots> = ((E - 1) / E) / ((E + 1) / E)"
    using E by (simp add: diff_divide_distrib add_divide_distrib)
  also have "\<dots> = (E - 1) / (E + 1)"
    using E by simp
  also have "\<dots> = 1 - 2 / (E + 1)"
  proof -
    have "E + 1 \<noteq> 0" using E by simp
    then show ?thesis by (simp add: field_simps)
  qed
  also have "E = exp 1 ^ (2 * n)"
    using exp_of_nat_mult [of "2 * n" 1] by (simp add: E_def)
  finally show ?thesis .
qed

lemma tanh_of_nat_lower: "1 - 2 / (2 ^ (2 * n) + 1) \<le> tanh (real n)"
proof -
  have "(2::real) \<le> exp 1"
    using exp_ge_add_one_self [of 1] by simp
  then have "(2::real) ^ (2 * n) \<le> exp 1 ^ (2 * n)"
    by (intro power_mono) simp_all
  then have "2 / (exp 1 ^ (2 * n) + 1) \<le> 2 / ((2::real) ^ (2 * n) + 1)"
    by (intro divide_left_mono) (auto intro!: mult_pos_pos add_pos_pos)
  then show ?thesis by (simp add: tanh_of_nat)
qed

lemma tanh_of_nat_upper: "tanh (real n) \<le> 1 - 2 / (3 ^ (2 * n) + 1)"
proof -
  have "exp 1 \<le> (3::real)"
    by (rule exp_le)
  then have "exp 1 ^ (2 * n) \<le> (3::real) ^ (2 * n)"
    by (intro power_mono) simp_all
  then have "2 / ((3::real) ^ (2 * n) + 1) \<le> 2 / (exp 1 ^ (2 * n) + 1)"
    by (intro divide_left_mono) (auto intro!: mult_pos_pos add_pos_pos)
  then show ?thesis by (simp add: tanh_of_nat)
qed

lemma linalg_norm_single: "0 \<le> x \<Longrightarrow> linalg_norm [x, 0] = x"
  by (simp add: linalg_norm_def)

lemma exp_operand_origin_20: "exp_operand [20, 0] [0, 0] = [tanh 20, 0]"
  by (simp add: exp_operand_def Let_def linalg_norm_single isclose_def)

lemma tanh_20_sq: "1 - TOLERANCE \<le> (tanh (20::real))\<^sup>2"
proof -
  have "1 - 2 / (2 ^ 40 + 1) \<le> tanh (real 20)"
    using tanh_of_nat_lower [of 20] by simp
  then have l: "1 - 1 / 10 ^ 7 \<le> tanh (20::real)"
    by simp
  have "(1 - 1 / 10 ^ 7)\<^sup>2 \<le> (tanh (20::real))\<^sup>2"
    using l by (intro power_mono) simp_all
  then show ?thesis
    by (simp add: TOLERANCE_def power2_eq_square)
qed

text \<open>
  Claim C10. \<^verbatim>\<open>exp\<close> is not total on valid base points: at the origin of the plane
  and the tangent vector \<open>(20, 0)\<close> the operand \<open>direction \<cdot> tanh(\<lambda> \<cdot> \<parallel>tangent_vec\<parallel>)\<close>
  has squared norm \<open>tanh\<^sup>2 20 \<ge> 1 - TOLERANCE\<close>, fails the membership test inside
  \<^verbatim>\<open>mobius_add\<close>, and \<^verbatim>\<open>exp\<close> returns \<^verbatim>\<open>NameError\<close>.
\<close>

theorem exp_not_total:
  "\<exists>tangent_vec base_point.
      gs_all (belongs [base_point] TOLERANCE)
      \<and> 1 - TOLERANCE \<le> sum_sq (exp_operand tangent_vec base_point)
      \<and> exp_ball (Vector tangent_vec) (Vector base_point) = Inl NameError"
proof -
  have "gs_all (belongs [[0, 0]] TOLERANCE)"
    by (simp add: gs_all_belongs TOLERANCE_def)
  moreover have s: "1 - TOLERANCE \<le> sum_sq (exp_operand [20, 0] [0, 0])"
    using tanh_20_sq by (simp add: exp_operand_origin_20)
  moreover have "exp_ball (Vector [20, 0]) (Vector [0, 0]) = Inl NameError"
  proof -
    have "mobius_add (Matrix [[0, 0]]) (Matrix [exp_operand [20, 0] [0, 0]]) = Inl NameError"
      using s by (intro mobius_add_invalid) simp
    then show ?thesis
      by (simp add: exp_ball_def Let_def broadcast_rows_def)
  qed
  ultimately show ?thesis by blast
qed

section \<open>The distance\<close>

lemma sum_sq_nonneg: "0 \<le> sum_sq a"
  by (induction a) simp_all

lemma gram_psd:
  assumes "length a = length b" "length b = length c"
  shows "0 \<le> \<alpha>\<^sup>2 * sum_sq a + \<beta>\<^sup>2 * sum_sq b + \<gamma>\<^sup>2 * sum_sq c
            + 2 * \<alpha> * \<beta> * dot a b + 2 * \<alpha> * \<gamma> * dot a c + 2 * \<beta> * \<gamma> * dot b c"
  using assms
proof (induction a b c rule: list_induct3)
  case Nil
  show ?case by simp
next
  case (Cons x a y b z c)
  have "\<alpha>\<^sup>2 * sum_sq (x # a) + \<beta>\<^sup>2 * sum_sq (y # b) + \<gamma>\<^sup>2 * sum_sq (z # c)
            + 2 * \<alpha> * \<beta> * dot (x # a) (y # b) + 2 * \<alpha> * \<gamma> * dot (x # a) (z # c)
            + 2 * \<beta> * \<gamma> * dot (y # b) (z # c)
        = (\<alpha> * x + \<beta> * y + \<gamma> * z)\<^sup>2
          + (\<alpha>\<^sup>2 * sum_sq a + \<beta>\<^sup>2 * sum_sq b + \<gamma>\<^sup>2 * sum_sq c
            + 2 * \<alpha> * \<beta> * dot a b + 2 * \<alpha> * \<gamma> * dot a c + 2 * \<beta> * \<gamma> * dot b c)"
    by (simp add: power2_eq_square algebra_simps)
  then show ?case using Cons.IH by simp
qed

lemma sum_sq_diff:
  "length a = length b \<Longrightarrow> sum_sq (map2 (-) a b) = sum_sq a + sum_sq b - 2 * dot a b"
  by (induction a b rule: list_induct2) (simp_all add: power2_eq_square algebra_simps)

lemma sum_sq_diff_zero_iff:
  "length a = length b \<Longrightarrow> sum_sq (map2 (-) a b) = 0 \<longleftrightarrow> a = b"
proof (induction a b rule: list_induct2)
  case Nil
  show ?case by simp
next
  case (Cons x a y b)
  have "0 \<le> (x - y)\<^sup>2" by simp
  then show ?case
    using Cons.IH sum_sq_nonneg [of "map2 (-) a b"] by (auto simp add: add_nonneg_eq_0_iff)
qed

lemma discriminant_bound:
  fixes c0 c1 c2 :: real
  assumes all: "\<And>s. 0 \<le> c0 + 2 * c1 * s + c2 * s\<^sup>2" and c2: "0 \<le> c2"
  shows "c1\<^sup>2 \<le> c0 * c2"
proof (cases "c2 = 0")
  case True
  have "c1 = 0"
  proof (rule ccontr)
    assume n: "c1 \<noteq> 0"
    have "0 \<le> c0 + 2 * c1 * (- (c0 + 1) / (2 * c1)) + c2 * (- (c0 + 1) / (2 * c1))\<^sup>2"
      by (rule all)
    then show False using n True by simp
  qed
  then show ?thesis using True by simp
next
  case False
  then have p: "0 < c2" using c2 by simp
  have "0 \<le> c0 + 2 * c1 * (- c1 / c2) + c2 * (- c1 / c2)\<^sup>2"
    by (rule all)
  also have "c0 + 2 * c1 * (- c1 / c2) + c2 * (- c1 / c2)\<^sup>2 = c0 - c1\<^sup>2 / c2"
    using p by (simp add: power2_eq_square field_simps)
  finally have "c1\<^sup>2 / c2 \<le> c0" by simp
  then show ?thesis using p by (simp add: field_simps)
qed

lemma lorentz_gram:
  fixes xx yy zz xy xz yz X0 Y0 Z0 :: real
  assumes psd: "\<And>\<alpha> \<beta> \<gamma>. 0 \<le> \<alpha>\<^sup>2 * xx + \<beta>\<^sup>2 * yy + \<gamma>\<^sup>2 * zz
                  + 2 * \<alpha> * \<beta> * xy + 2 * \<alpha> * \<gamma> * xz + 2 * \<beta> * \<gamma> * yz"
    and xx: "xx = X0\<^sup>2 - 1" and yy: "yy = Y0\<^sup>2 - 1" and zz: "zz = Z0\<^sup>2 - 1"
    and Y0: "0 < Y0"
    and tab: "tab = X0 * Y0 - xy" and tbc: "tbc = Y0 * Z0 - yz" and tac: "tac = X0 * Z0 - xz"
    and tbc1: "1 \<le> tbc"
  shows "(tab * tbc - tac)\<^sup>2 \<le> (tab\<^sup>2 - 1) * (tbc\<^sup>2 - 1)"
proof (rule discriminant_bound)
  show "0 \<le> tbc\<^sup>2 - 1"
    using one_le_power [OF tbc1, of 2] by simp
next
  fix s :: real
  define k where "k = tab + s * tbc"
  define w2 where "w2 = xx + k\<^sup>2 * yy + s\<^sup>2 * zz - 2 * k * xy + 2 * s * xz - 2 * k * s * yz"
  define wy where "wy = xy - k * yy + s * yz"
  define W0 where "W0 = X0 - k * Y0 + s * Z0"
  have w2_nonneg: "0 \<le> w2"
    using psd [of 1 "- k" s] by (simp add: w2_def algebra_simps)
  have yy_nonneg: "0 \<le> yy"
    using psd [of 0 1 0] by simp
  have orth: "W0 * Y0 = wy"
    by (simp add: W0_def wy_def k_def tab tbc yy power2_eq_square algebra_simps)
  have cs: "wy\<^sup>2 \<le> w2 * yy"
  proof (rule discriminant_bound)
    show "0 \<le> yy" by (rule yy_nonneg)
  next
    fix l :: real
    have "w2 + 2 * wy * l + yy * l\<^sup>2
        = 1\<^sup>2 * xx + (l - k)\<^sup>2 * yy + s\<^sup>2 * zz + 2 * 1 * (l - k) * xy + 2 * 1 * s * xz
          + 2 * (l - k) * s * yz"
      by (simp add: w2_def wy_def power2_eq_square algebra_simps)
    also have "0 \<le> \<dots>" by (rule psd)
    finally show "0 \<le> w2 + 2 * wy * l + yy * l\<^sup>2" .
  qed
  have "W0\<^sup>2 * Y0\<^sup>2 = wy\<^sup>2"
    using orth by (simp add: power_mult_distrib [symmetric])
  also have "\<dots> \<le> w2 * yy" by (rule cs)
  also have "\<dots> \<le> w2 * Y0\<^sup>2"
    using w2_nonneg by (intro mult_left_mono) (simp_all add: yy)
  finally have "W0\<^sup>2 * Y0\<^sup>2 \<le> w2 * Y0\<^sup>2" .
  then have le: "W0\<^sup>2 \<le> w2"
    using Y0 by simp
  have "w2 - W0\<^sup>2 = tab\<^sup>2 - 1 + 2 * (tab * tbc - tac) * s + (tbc\<^sup>2 - 1) * s\<^sup>2"
    by (simp add: w2_def W0_def k_def tab tbc tac xx yy zz power2_eq_square algebra_simps)
  then show "0 \<le> tab\<^sup>2 - 1 + 2 * (tab * tbc - tac) * s + (tbc\<^sup>2 - 1) * s\<^sup>2"
    using le by simp
qed

lemma clip_valid: "sum_sq a < 1 - TOLERANCE \<Longrightarrow> clip (sum_sq a) 0 (1 - EPSILON) = sum_sq a"
  using sum_sq_nonneg [of a] by (simp add: clip_def TOLERANCE_def EPSILON_def)

lemma cosh_dist_ge_1:
  assumes "sum_sq a < 1 - TOLERANCE" "sum_sq b < 1 - TOLERANCE"
  shows "1 \<le> cosh_dist a b"
proof -
  have "0 < 1 - sum_sq a" "0 < 1 - sum_sq b"
    using assms by (simp_all add: TOLERANCE_def)
  then have "0 \<le> 2 * sum_sq (map2 (-) a b) / ((1 - sum_sq a) * (1 - sum_sq b))"
    using sum_sq_nonneg [of "map2 (-) a b"] by (intro divide_nonneg_pos mult_pos_pos) simp_all
  then show ?thesis by (simp add: cosh_dist_def)
qed

lemma dist_row_arcosh:
  assumes "sum_sq a < 1 - TOLERANCE" "sum_sq b < 1 - TOLERANCE"
  shows "dist_row self a b = arcosh (cosh_dist a b) * scale self"
  using assms cosh_dist_ge_1 [OF assms]
  by (simp add: dist_row_def Let_def clip_valid cosh_dist_def [symmetric] arcosh_real_def)

lemma lorentz_real:
  fixes da db p :: real
  assumes "da \<noteq> 0" "db \<noteq> 0"
  shows "1 + 2 * ((1 - da) + (1 - db) - 2 * p) / (da * db)
          = (1 + (1 - da)) / da * ((1 + (1 - db)) / db) - 2 / da * (2 / db) * p"
    and "(2 / da)\<^sup>2 * (1 - da) = ((1 + (1 - da)) / da)\<^sup>2 - 1"
  using assms by (simp_all add: power2_eq_square field_simps)

lemma cosh_dist_lorentz:
  assumes "length a = length b" "sum_sq a < 1" "sum_sq b < 1"
  shows "cosh_dist a b = (1 + sum_sq a) / (1 - sum_sq a) * ((1 + sum_sq b) / (1 - sum_sq b))
           - 2 / (1 - sum_sq a) * (2 / (1 - sum_sq b)) * dot a b"
  using assms lorentz_real(1) [of "1 - sum_sq a" "1 - sum_sq b" "dot a b"]
  by (simp add: cosh_dist_def sum_sq_diff)

lemma hyperboloid_norm:
  assumes "sum_sq a < 1"
  shows "(2 / (1 - sum_sq a))\<^sup>2 * sum_sq a = ((1 + sum_sq a) / (1 - sum_sq a))\<^sup>2 - 1"
  using assms lorentz_real(2) [of "1 - sum_sq a" "1 - sum_sq a"] by simp

lemma arcosh_triangle:
  fixes tab tbc tac :: real
  assumes "1 \<le> tab" "1 \<le> tbc" "1 \<le> tac"
    and g: "(tab * tbc - tac)\<^sup>2 \<le> (tab\<^sup>2 - 1) * (tbc\<^sup>2 - 1)"
  shows "arcosh tac \<le> arcosh tab + arcosh tbc"
proof -
  have "tac - tab * tbc \<le> \<bar>tab * tbc - tac\<bar>" by simp
  also have "\<dots> = sqrt ((tab * tbc - tac)\<^sup>2)" by simp
  also have "\<dots> \<le> sqrt ((tab\<^sup>2 - 1) * (tbc\<^sup>2 - 1))"
    using g by (rule real_sqrt_le_mono)
  also have "\<dots> = sinh (arcosh tab) * sinh (arcosh tbc)"
    using assms by (simp add: sinh_arcosh_real real_sqrt_mult)
  finally have "tac \<le> cosh (arcosh tab) * cosh (arcosh tbc) + sinh (arcosh tab) * sinh (arcosh tbc)"
    using assms by simp
  then have "cosh (arcosh tac) \<le> cosh (arcosh tab + arcosh tbc)"
    using assms by (simp add: cosh_add)
  then show ?thesis
    using assms by (subst (asm) cosh_real_nonneg_le_iff) simp_all
qed

lemma cosh_dist_gram:
  assumes len: "length a = length b" "length b = length c"
    and a: "sum_sq a < 1" and b: "sum_sq b < 1" and c: "sum_sq c < 1"
    and bc1: "1 \<le> cosh_dist b c"
  shows "(cosh_dist a b * cosh_dist b c - cosh_dist a c)\<^sup>2
          \<le> ((cosh_dist a b)\<^sup>2 - 1) * ((cosh_dist b c)\<^sup>2 - 1)"
proof -
  define ia where "ia = 2 / (1 - sum_sq a)"
  define ib where "ib = 2 / (1 - sum_sq b)"
  define ic where "ic = 2 / (1 - sum_sq c)"
  have na: "1 - sum_sq a \<noteq> 0" and nb: "1 - sum_sq b \<noteq> 0" and nc: "1 - sum_sq c \<noteq> 0"
    using a b c by simp_all
  show ?thesis
  proof (rule lorentz_gram [where xx = "ia\<^sup>2 * sum_sq a" and yy = "ib\<^sup>2 * sum_sq b"
        and zz = "ic\<^sup>2 * sum_sq c" and xy = "ia * ib * dot a b" and xz = "ia * ic * dot a c"
        and yz = "ib * ic * dot b c" and ?X0.0 = "(1 + sum_sq a) / (1 - sum_sq a)"
        and ?Y0.0 = "(1 + sum_sq b) / (1 - sum_sq b)" and ?Z0.0 = "(1 + sum_sq c) / (1 - sum_sq c)"])
    fix \<alpha> \<beta> \<gamma> :: real
    have "0 \<le> (\<alpha> * ia)\<^sup>2 * sum_sq a + (\<beta> * ib)\<^sup>2 * sum_sq b + (\<gamma> * ic)\<^sup>2 * sum_sq c
            + 2 * (\<alpha> * ia) * (\<beta> * ib) * dot a b + 2 * (\<alpha> * ia) * (\<gamma> * ic) * dot a c
            + 2 * (\<beta> * ib) * (\<gamma> * ic) * dot b c"
      by (rule gram_psd [OF len])
    then show "0 \<le> \<alpha>\<^sup>2 * (ia\<^sup>2 * sum_sq a) + \<beta>\<^sup>2 * (ib\<^sup>2 * sum_sq b) + \<gamma>\<^sup>2 * (ic\<^sup>2 * sum_sq c)
            + 2 * \<alpha> * \<beta> * (ia * ib * dot a b) + 2 * \<alpha> * \<gamma> * (ia * ic * dot a c)
            + 2 * \<beta> * \<gamma> * (ib * ic * dot b c)"
      by (simp add: power_mult_distrib mult_ac)
  next
    show "ia\<^sup>2 * sum_sq a = ((1 + sum_sq a) / (1 - sum_sq a))\<^sup>2 - 1"
      using a by (simp add: ia_def hyperboloid_norm)
    show "ib\<^sup>2 * sum_sq b = ((1 + sum_sq b) / (1 - sum_sq b))\<^sup>2 - 1"
      using b by (simp add: ib_def hyperboloid_norm)
    show "ic\<^sup>2 * sum_sq c = ((1 + sum_sq c) / (1 - sum_sq c))\<^sup>2 - 1"
      using c by (simp add: ic_def hyperboloid_norm)
    show "0 < (1 + sum_sq b) / (1 - sum_sq b)"
      using b sum_sq_nonneg [of b] by (intro divide_pos_pos) simp_all
    show "cosh_dist a b = (1 + sum_sq a) / (1 - sum_sq a) * ((1 + sum_sq b) / (1 - sum_sq b))
           - ia * ib * dot a b"
      using cosh_dist_lorentz [OF len(1) a b] by (simp add: ia_def ib_def)
    show "cosh_dist b c = (1 + sum_sq b) / (1 - sum_sq b) * ((1 + sum_sq c) / (1 - sum_sq c))
           - ib * ic * dot b c"
      using cosh_dist_lorentz [OF len(2) b c] by (simp add: ib_def ic_def)
    show "cosh_dist a c = (1 + sum_sq a) / (1 - sum_sq a) * ((1 + sum_sq c) / (1 - sum_sq c))
           - ia * ic * dot a c"
      using cosh_dist_lorentz [of a c] len a c by (simp add: ia_def ic_def)
    show "1 \<le> cosh_dist b c" by (rule bc1)
  qed
qed

lemma sum_sq_diff_commute: "sum_sq (map2 (-) a b) = sum_sq (map2 (-) b a)"
  by (induction a b rule: list_induct2') (simp_all add: power2_commute)

lemma cosh_dist_commute: "cosh_dist a b = cosh_dist b a"
  by (simp add: cosh_dist_def sum_sq_diff_commute [of a b] mult.commute)

lemma cosh_dist_eq_1_iff:
  assumes "length a = length b" "sum_sq a < 1 - TOLERANCE" "sum_sq b < 1 - TOLERANCE"
  shows "cosh_dist a b = 1 \<longleftrightarrow> a = b"
proof -
  have "1 - sum_sq a \<noteq> 0" "1 - sum_sq b \<noteq> 0"
    using assms by (simp_all add: TOLERANCE_def)
  then have "cosh_dist a b = 1 \<longleftrightarrow> sum_sq (map2 (-) a b) = 0"
    by (simp add: cosh_dist_def)
  then show ?thesis
    by (simp add: sum_sq_diff_zero_iff assms(1))
qed

subsection \<open>Rounding to double precision\<close>

lemma round_double_0 [simp]: "round_double 0 = 0"
  by (simp add: round_double_def)

lemma round_even_near:
  assumes "of_int m - 1 / 2 < y" "y < of_int m + 1 / 2"
  shows "round_even y = m"
proof (cases "of_int m \<le> y")
  case True
  then have "\<lfloor>y\<rfloor> = m"
    using assms by (intro floor_unique) simp_all
  then show ?thesis
    using assms by (simp add: round_even_def Let_def)
next
  case False
  then have "\<lfloor>y\<rfloor> = m - 1"
    using assms by (intro floor_unique) simp_all
  then show ?thesis
    using assms False by (simp add: round_even_def Let_def)
qed

lemma round_even_of_int [simp]: "round_even (of_int m) = m"
  by (rule round_even_near) simp_all

lemma round_even_numeral [simp]: "round_even (numeral k) = numeral k"
  using round_even_of_int [of "numeral k"] by simp

lemma round_even_lower: "of_int m \<le> y \<Longrightarrow> m \<le> round_even y"
proof -
  assume "of_int m \<le> y"
  then have "m \<le> \<lfloor>y\<rfloor>" by (simp add: le_floor_iff)
  then show ?thesis by (simp add: round_even_def Let_def)
qed

lemma round_even_upper: "y \<le> of_int m \<Longrightarrow> round_even y \<le> m"
proof (cases "y = of_int m")
  case True
  then show ?thesis by simp
next
  case False
  assume "y \<le> of_int m"
  then have "y < of_int m" using False by simp
  then have "\<lfloor>y\<rfloor> < m" by (simp add: floor_less_iff)
  then show ?thesis by (simp add: round_even_def Let_def)
qed

lemma exponent_unique:
  assumes "2 powr of_int e \<le> \<bar>x\<bar>" "\<bar>x\<bar> < 2 powr (of_int e + 1)"
  shows "\<lfloor>log 2 \<bar>x\<bar>\<rfloor> = e"
proof (rule floor_unique)
  have pos: "0 < \<bar>x\<bar>"
    using assms(1) by (smt (verit) powr_gt_zero)
  show "of_int e \<le> log 2 \<bar>x\<bar>"
    using assms(1) pos by (simp add: le_log_iff)
  show "log 2 \<bar>x\<bar> < of_int e + 1"
    using assms(2) pos by (simp add: log_less_iff)
qed

lemma round_double_eval:
  assumes "2 powr of_int e \<le> \<bar>x\<bar>" "\<bar>x\<bar> < 2 powr (of_int e + 1)"
  shows "round_double x = 2 powr (of_int e - 52) * of_int (round_even (x / 2 powr (of_int e - 52)))"
proof -
  have "x \<noteq> 0"
    using assms(1) by (smt (verit) powr_gt_zero)
  then show ?thesis
    by (simp add: round_double_def Let_def exponent_unique [OF assms])
qed

lemma round_double_bounds:
  assumes "2 powr of_int e \<le> x" "x < 2 powr (of_int e + 1)"
  shows "2 powr of_int e \<le> round_double x" "round_double x \<le> 2 powr (of_int e + 1)"
proof -
  define u :: real where "u = 2 powr (of_int e - 52)"
  have u: "0 < u" by (simp add: u_def)
  have x: "0 < x"
    using assms(1) by (smt (verit) powr_gt_zero)
  have lo: "2 powr of_int e = u * 2 ^ 52" and hi: "2 powr (of_int e + 1) = u * 2 ^ 53"
    by (simp_all add: u_def powr_diff powr_add)
  have r: "round_double x = u * of_int (round_even (x / u))"
    using round_double_eval [of e x] assms x by (simp add: u_def)
  have "of_int (2 ^ 52) \<le> x / u"
    using assms(1) u by (simp add: lo pos_le_divide_eq mult.commute)
  then have "2 ^ 52 \<le> round_even (x / u)"
    by (rule round_even_lower)
  then have "(2 ^ 52 :: real) \<le> of_int (round_even (x / u))"
    by (metis of_int_le_iff of_int_numeral of_int_power)
  then show "2 powr of_int e \<le> round_double x"
    using u by (simp add: r lo)
  have "x / u \<le> of_int (2 ^ 53)"
    using assms(2) u by (simp add: hi pos_divide_le_eq mult.commute)
  then have "round_even (x / u) \<le> 2 ^ 53"
    by (rule round_even_upper)
  then have "of_int (round_even (x / u)) \<le> (2 ^ 53 :: real)"
    by (metis of_int_le_iff of_int_numeral of_int_power)
  then show "round_double x \<le> 2 powr (of_int e + 1)"
    using u by (simp add: r hi)
qed

lemma round_double_pow2:
  "round_double (2 powr of_int e) = 2 powr of_int e"
proof -
  have "round_double (2 powr of_int e)
      = 2 powr (of_int e - 52) * of_int (round_even (2 powr of_int e / 2 powr (of_int e - 52)))"
    by (rule round_double_eval) (simp_all add: powr_add)
  also have "(2::real) powr of_int e / 2 powr (of_int e - 52) = of_int (2 ^ 52)"
    by (simp add: powr_diff)
  also have "(2::real) powr (of_int e - 52) * of_int (round_even (of_int (2 ^ 52))) = 2 powr of_int e"
    by (simp add: powr_diff)
  finally show ?thesis .
qed

lemma round_double_1 [simp]: "round_double 1 = 1"
  using round_double_pow2 [of 0] by simp

lemma round_double_inv_pow2: "round_double (1 / 2 ^ n) = 1 / 2 ^ n"
proof -
  have "(2::real) powr of_int (- int n) = 1 / 2 ^ n"
    by (simp add: powr_minus powr_realpow inverse_eq_divide)
  then show ?thesis
    using round_double_pow2 [of "- int n"] by simp
qed

lemma round_even_minus: "round_even (- y) = - round_even y"
proof (cases "y = of_int \<lfloor>y\<rfloor>")
  case True
  then obtain m :: int where m: "y = of_int m" ..
  then have "- y = of_int (- m)" by simp
  then have "round_even (- y) = - m"
    by (simp only: round_even_of_int)
  then show ?thesis
    by (simp add: m)
next
  case False
  define f where "f = \<lfloor>y\<rfloor>"
  have "of_int f \<le> y"
    unfolding f_def by (rule of_int_floor_le)
  moreover have "y \<noteq> of_int f"
    using False by (simp add: f_def)
  ultimately have f1: "of_int f < y" by simp
  have f2: "y < of_int f + 1"
    unfolding f_def by linarith
  have fm: "\<lfloor>- y\<rfloor> = - f - 1"
    using f1 f2 by (intro floor_unique) simp_all
  have "even (- f - 1) \<longleftrightarrow> odd f" by simp
  then show ?thesis
    using f1 f2 by (simp add: round_even_def Let_def fm f_def [symmetric])
qed

lemma round_double_minus: "round_double (- x) = - round_double x"
  by (simp add: round_double_def Let_def round_even_minus)

lemma round_double_eval_nat:
  assumes "1 / 2 ^ k \<le> \<bar>x\<bar>" "\<bar>x\<bar> < 2 / 2 ^ k"
  shows "round_double x = of_int (round_even (x * 2 ^ (k + 52))) / 2 ^ (k + 52)"
proof -
  have p: "(2::real) powr of_int (- int k) = 1 / 2 ^ k"
    by (simp add: powr_minus powr_realpow inverse_eq_divide)
  have u: "(2::real) powr (of_int (- int k) - 52) = 1 / 2 ^ (k + 52)"
    using powr_minus [of "2::real" "real (k + 52)"] powr_realpow [of "2::real" "k + 52"]
    by (simp add: inverse_eq_divide algebra_simps)
  have p1: "(2::real) powr (of_int (- int k) + 1) = 2 / 2 ^ k"
    by (simp only: powr_add p) simp
  have "round_double x = 2 powr (of_int (- int k) - 52)
      * of_int (round_even (x / 2 powr (of_int (- int k) - 52)))"
  proof (rule round_double_eval)
    show "2 powr of_int (- int k) \<le> \<bar>x\<bar>"
      using assms(1) by (simp only: p)
    show "\<bar>x\<bar> < 2 powr (of_int (- int k) + 1)"
      using assms(2) by (simp only: p1)
  qed
  then show ?thesis
    by (simp only: u) simp
qed

lemma round_double_below_1: "round_double (1 - 1 / 2 ^ 60) = 1"
proof -
  have "round_even ((1 - 1 / 2 ^ 60) * 2 ^ (1 + 52)) = 2 ^ 53"
    by (rule round_even_near) simp_all
  then show ?thesis
    using round_double_eval_nat [of 1 "1 - 1 / 2 ^ 60"] by simp
qed

lemma round_double_above_1: "round_double (1 + 1 / 2 ^ 59) = 1"
proof -
  have "round_even ((1 + 1 / 2 ^ 59) * 2 ^ (0 + 52)) = 2 ^ 52"
    by (rule round_even_near) simp_all
  then show ?thesis
    using round_double_eval_nat [of 0 "1 + 1 / 2 ^ 59"] by simp
qed

lemma foldl_sq_uminus:
  "foldl (\<lambda>s v. round_double (s + round_double (v * v))) s0 (map uminus x)
    = foldl (\<lambda>s v. round_double (s + round_double (v * v))) s0 x"
  by (induction x arbitrary: s0) simp_all

lemma sum_sq_double_uminus: "sum_sq_double (map uminus x) = sum_sq_double x"
  by (simp only: sum_sq_double_def foldl_sq_uminus)

lemma foldl_sq_zero:
  "foldl (\<lambda>s v. round_double (s + round_double (v * v))) 0 (map (\<lambda>x. 0) x) = 0"
  by (induction x) simp_all

lemma diff_double_self: "map2 (\<lambda>x y. round_double (x - y)) a a = map (\<lambda>x. 0) a"
  by (induction a) simp_all

lemma diff_double_commute:
  "map2 (\<lambda>x y. round_double (x - y)) b a = map uminus (map2 (\<lambda>x y. round_double (x - y)) a b)"
proof (induction a b rule: list_induct2')
  case (4 x xs y ys)
  have "round_double (y - x) = - round_double (x - y)"
    using round_double_minus [of "x - y"] by simp
  then show ?case using 4 by simp
qed simp_all

lemma dist_row_double_self: "dist_row_double self a a = 0"
  by (simp add: dist_row_double_def Let_def diff_double_self sum_sq_double_def foldl_sq_zero)

lemma dist_row_double_commute: "dist_row_double self a b = dist_row_double self b a"
proof -
  have "sum_sq_double (map2 (\<lambda>x y. round_double (x - y)) b a)
      = sum_sq_double (map2 (\<lambda>x y. round_double (x - y)) a b)"
    by (simp only: diff_double_commute [of b a] sum_sq_double_uminus)
  then show ?thesis
    by (simp add: dist_row_double_def Let_def mult.commute)
qed

lemma clip_upper_bounds:
  "1 / 2 \<le> round_double (1 - round_double EPSILON)"
proof -
  have e: "1 / 2 ^ 20 \<le> (EPSILON::real)" "EPSILON < 2 / 2 ^ 20"
    by (simp_all add: EPSILON_def)
  have p: "(2::real) powr of_int (- 20) = 1 / 2 ^ 20" "(2::real) powr (of_int (- 20) + 1) = 2 / 2 ^ 20"
    using powr_minus [of "2::real" 20] powr_realpow [of "2::real" 20]
      powr_minus [of "2::real" 19] powr_realpow [of "2::real" 19]
    by (simp_all add: inverse_eq_divide)
  have "2 powr of_int (- 20) \<le> round_double EPSILON"
    "round_double EPSILON \<le> 2 powr (of_int (- 20) + 1)"
    using e by (intro round_double_bounds; simp only: p)+
  then have r: "1 / 2 ^ 20 \<le> round_double EPSILON" "round_double EPSILON \<le> 2 / 2 ^ 20"
    by (simp_all only: p)
  have q: "(2::real) powr of_int (- 1) = 1 / 2" "(2::real) powr (of_int (- 1) + 1) = 1"
    by (simp_all add: powr_minus)
  have "2 powr of_int (- 1) \<le> round_double (1 - round_double EPSILON)"
  proof (rule round_double_bounds)
    show "2 powr of_int (- 1) \<le> 1 - round_double EPSILON"
      using r by (simp only: q) simp
    show "1 - round_double EPSILON < 2 powr (of_int (- 1) + 1)"
      using r by (simp only: q) simp
  qed
  then show ?thesis by (simp only: q)
qed

lemma sum_sq_double_origin: "sum_sq_double [0, 0] = 0"
  by (simp add: sum_sq_double_def)

lemma sum_sq_double_small: "sum_sq_double [1 / 2 ^ 30, 0] = 1 / 2 ^ 60"
proof -
  have sq: "(1 / 2 ^ 30 :: real) * (1 / 2 ^ 30) = 1 / 2 ^ 60" by simp
  show ?thesis
    by (simp only: sum_sq_double_def foldl_Cons foldl_Nil sq round_double_inv_pow2
        round_double_0 add_0_left add_0_right mult_zero_left)
qed

lemma diff_double_small:
  "map2 (\<lambda>x y. round_double (x - y)) [0, 0] [1 / 2 ^ 30, 0] = map uminus [1 / 2 ^ 30, 0]"
proof -
  have "round_double (0 - 1 / 2 ^ 30) = - (1 / 2 ^ 30)"
    using round_double_minus [of "1 / 2 ^ 30"]
    by (simp only: diff_0 round_double_inv_pow2)
  then show ?thesis
    by (simp only: zip_Cons_Cons zip_Nil list.map prod.case diff_0_right round_double_0
        minus_zero)
qed

lemma dist_row_double_small:
  "dist_row_double \<lparr>dimension = 2, scale = 1\<rparr> [0, 0] [1 / 2 ^ 30, 0] = 0"
proof -
  define upper where "upper = round_double (1 - round_double EPSILON)"
  have up: "1 / 2 \<le> upper"
    unfolding upper_def by (rule clip_upper_bounds)
  have small: "(1 / 2 ^ 60 :: real) \<le> 1 / 2" "(0::real) \<le> 1 / 2 ^ 60"
    by simp_all
  have ca: "clip (sum_sq_double [0, 0]) 0 upper = 0"
    using up by (simp add: clip_def sum_sq_double_origin)
  have cb: "clip (sum_sq_double [1 / 2 ^ 30, 0]) 0 upper = 1 / 2 ^ 60"
    using up small by (simp only: clip_def sum_sq_double_small)
  have dn: "sum_sq_double (map2 (\<lambda>x y. round_double (x - y)) [0, 0] [1 / 2 ^ 30, 0]) = 1 / 2 ^ 60"
    by (simp only: diff_double_small sum_sq_double_uminus sum_sq_double_small)
  have "2 * (1 / 2 ^ 60) = (1 / 2 ^ 59 :: real)" by simp
  then have two: "round_double (2 * (1 / 2 ^ 60)) = 1 / 2 ^ 59"
    by (simp only: round_double_inv_pow2)
  have den: "round_double (round_double (1 - 0) * round_double (1 - 1 / 2 ^ 60)) = 1"
    by (simp only: round_double_below_1 diff_zero round_double_1 mult_1)
  have nf: "round_double (1 + round_double (1 / 2 ^ 59 / 1)) = 1"
    by (simp only: div_by_1 round_double_inv_pow2 round_double_above_1)
  have "dist_row_double \<lparr>dimension = 2, scale = 1\<rparr> [0, 0] [1 / 2 ^ 30, 0]
      = round_double (round_double (ln (round_double (1
            + round_double (sqrt (round_double (round_double (1 * 1) - 1)))))) * 1)"
    by (simp only: dist_row_double_def Let_def upper_def [symmetric] ca cb dn two den nf
        poincare_ball_metric.simps)
  also have "\<dots> = 0" by simp
  finally show ?thesis .
qed

text \<open>
  Claim C5, as the spec states it, fails in the arithmetic of the code. The points
  \<open>(0, 0)\<close> and \<open>(2\<^sup>-\<^sup>3\<^sup>0, 0)\<close> pass the membership test and differ, and \<^verbatim>\<open>dist\<close>
  returns 0 for them: the squared distance \<open>2\<^sup>-\<^sup>6\<^sup>0\<close> is exact, but \<open>1 - 2\<^sup>-\<^sup>6\<^sup>0\<close> and
  \<open>1 + 2\<^sup>-\<^sup>5\<^sup>9\<close> both round to 1, so \<^verbatim>\<open>norm_function\<close> is 1 and its inverse
  hyperbolic cosine is 0. So the distance in double precision is not zero only
  for coincident points.
\<close>

theorem dist_zero_counterexample:
  "gs_all (belongs [[0, 0]] TOLERANCE) \<and> gs_all (belongs [[1 / 2 ^ 30, 0]] TOLERANCE)
    \<and> [0, 0] \<noteq> [1 / 2 ^ 30, 0 :: real]
    \<and> dist_ball_double \<lparr>dimension = 2, scale = 1\<rparr> (Vector [0, 0]) (Vector [1 / 2 ^ 30, 0])
        = Inr [[0]]"
proof -
  have "dist_ball_double \<lparr>dimension = 2, scale = 1\<rparr> (Vector [0, 0]) (Vector [1 / 2 ^ 30, 0])
      = Inr [[dist_row_double \<lparr>dimension = 2, scale = 1\<rparr> [0, 0] [1 / 2 ^ 30, 0]]]"
    by (simp add: dist_ball_double_def Let_def broadcast_rows_def)
  then have "dist_ball_double \<lparr>dimension = 2, scale = 1\<rparr> (Vector [0, 0]) (Vector [1 / 2 ^ 30, 0])
      = Inr [[0]]"
    by (simp only: dist_row_double_small)
  moreover have "gs_all (belongs [[0, 0]] TOLERANCE)" "gs_all (belongs [[1 / 2 ^ 30, 0]] TOLERANCE)"
    by (simp_all add: gs_all_belongs TOLERANCE_def power2_eq_square)
  moreover have "[0, 0] \<noteq> [1 / 2 ^ 30, 0 :: real]" by simp
  ultimately show ?thesis by blast
qed

text \<open>
  Claim C5, amended. For points \<open>a\<close>, \<open>b\<close>, \<open>c\<close> of one dimension that pass the
  membership test and a metric of positive scale: the value of the formula that
  \<^verbatim>\<open>dist\<close> evaluates, in exact arithmetic, is the number \<open>dist_row\<close>, and that number
  is a geodesic distance: it is zero from a point to itself, symmetric, zero only
  when the two points coincide, equal to the scale times the distance of the metric
  of scale 1, and it satisfies the triangle inequality. The double precision result
  \<open>dist_row_double\<close> is zero from a point to itself and symmetric as well, exactly.
  The triangle inequality is proved through the hyperboloid coordinates of the
  three points and the Cauchy-Schwarz inequality on the space orthogonal to the
  middle point.
\<close>

theorem dist_properties:
  assumes a: "sum_sq a < 1 - TOLERANCE" and b: "sum_sq b < 1 - TOLERANCE"
    and c: "sum_sq c < 1 - TOLERANCE"
    and len: "length a = length b" "length b = length c"
    and s: "0 < scale self"
  shows "dist_ball self (Vector a) (Vector b) = Inr [[dist_row self a b]]
    \<and> dist_row self a a = 0
    \<and> dist_row self a b = dist_row self b a
    \<and> (dist_row self a b = 0 \<longleftrightarrow> a = b)
    \<and> dist_row self a b = scale self * dist_row (self\<lparr>scale := 1\<rparr>) a b
    \<and> dist_row self a c \<le> dist_row self a b + dist_row self b c
    \<and> dist_ball_double self (Vector a) (Vector b) = Inr [[dist_row_double self a b]]
    \<and> dist_row_double self a a = 0
    \<and> dist_row_double self a b = dist_row_double self b a"
proof (intro conjI)
  show "dist_ball self (Vector a) (Vector b) = Inr [[dist_row self a b]]"
    by (simp add: dist_ball_def Let_def broadcast_rows_def)
  have "cosh_dist a a = 1"
    using cosh_dist_eq_1_iff [of a a] a by simp
  then show "dist_row self a a = 0"
    by (simp add: dist_row_arcosh a)
  show "dist_row self a b = dist_row self b a"
    by (simp add: dist_row_arcosh a b cosh_dist_commute [of a b])
  have ab1: "1 \<le> cosh_dist a b" and bc1: "1 \<le> cosh_dist b c" and ac1: "1 \<le> cosh_dist a c"
    using a b c by (simp_all add: cosh_dist_ge_1)
  show "dist_row self a b = 0 \<longleftrightarrow> a = b"
    using s ab1 by (simp add: dist_row_arcosh a b cosh_dist_eq_1_iff len)
  show "dist_row self a b = scale self * dist_row (self\<lparr>scale := 1\<rparr>) a b"
    by (simp add: dist_row_arcosh a b)
  have lt: "sum_sq a < 1" "sum_sq b < 1" "sum_sq c < 1"
    using a b c by (simp_all add: TOLERANCE_def)
  have "arcosh (cosh_dist a c) \<le> arcosh (cosh_dist a b) + arcosh (cosh_dist b c)"
    using ab1 bc1 ac1 cosh_dist_gram [OF len lt bc1] by (rule arcosh_triangle)
  then have "arcosh (cosh_dist a c) * scale self
      \<le> (arcosh (cosh_dist a b) + arcosh (cosh_dist b c)) * scale self"
    using s by (intro mult_right_mono) simp_all
  moreover have "dist_row self a c = arcosh (cosh_dist a c) * scale self"
    "dist_row self a b = arcosh (cosh_dist a b) * scale self"
    "dist_row self b c = arcosh (cosh_dist b c) * scale self"
    by (simp_all add: dist_row_arcosh a b c)
  ultimately show "dist_row self a c \<le> dist_row self a b + dist_row self b c"
    by (simp add: algebra_simps)
  show "dist_ball_double self (Vector a) (Vector b) = Inr [[dist_row_double self a b]]"
    by (simp add: dist_ball_double_def Let_def broadcast_rows_def)
  show "dist_row_double self a a = 0"
    by (rule dist_row_double_self)
  show "dist_row_double self a b = dist_row_double self b a"
    by (rule dist_row_double_commute)
qed

theorem dist_properties_witness:
  "dist_ball \<lparr>dimension = 2, scale = 2\<rparr> (Vector [0, 0]) (Vector [1/2, 0])
      = Inr [[dist_row \<lparr>dimension = 2, scale = 2\<rparr> [0, 0] [1/2, 0]]]
    \<and> dist_row \<lparr>dimension = 2, scale = 2\<rparr> [0, 0] [0, 0] = 0
    \<and> dist_row \<lparr>dimension = 2, scale = 2\<rparr> [0, 0] [1/2, 0]
        = dist_row \<lparr>dimension = 2, scale = 2\<rparr> [1/2, 0] [0, 0]
    \<and> dist_row \<lparr>dimension = 2, scale = 2\<rparr> [0, 0] [1/2, 0] \<noteq> 0
    \<and> dist_row \<lparr>dimension = 2, scale = 2\<rparr> [0, 0] [1/2, 0]
        = 2 * dist_row \<lparr>dimension = 2, scale = 1\<rparr> [0, 0] [1/2, 0]
    \<and> dist_row \<lparr>dimension = 2, scale = 2\<rparr> [0, 0] [0, 1/2]
        \<le> dist_row \<lparr>dimension = 2, scale = 2\<rparr> [0, 0] [1/2, 0]
          + dist_row \<lparr>dimension = 2, scale = 2\<rparr> [1/2, 0] [0, 1/2]
    \<and> dist_ball_double \<lparr>dimension = 2, scale = 2\<rparr> (Vector [0, 0]) (Vector [1/2, 0])
        = Inr [[dist_row_double \<lparr>dimension = 2, scale = 2\<rparr> [0, 0] [1/2, 0]]]
    \<and> dist_row_double \<lparr>dimension = 2, scale = 2\<rparr> [0, 0] [0, 0] = 0
    \<and> dist_row_double \<lparr>dimension = 2, scale = 2\<rparr> [0, 0] [1/2, 0]
        = dist_row_double \<lparr>dimension = 2, scale = 2\<rparr> [1/2, 0] [0, 0]"
  using dist_properties [of "[0, 0]" "[1/2, 0]" "[0, 1/2]" "\<lparr>dimension = 2, scale = 2\<rparr>"]
  by (simp add: TOLERANCE_def power2_eq_square)

section \<open>The logarithm after the exponential\<close>

lemma dot_map2_lin:
  "length a = length b \<Longrightarrow>
    dot a (map2 (\<lambda>x y. (\<alpha> * x + \<beta> * y) * c) a b) = (\<alpha> * sum_sq a + \<beta> * dot a b) * c"
  by (induction a b rule: list_induct2) (simp_all add: power2_eq_square algebra_simps)

lemma sum_sq_map2_lin:
  "length a = length b \<Longrightarrow>
    sum_sq (map2 (\<lambda>x y. (\<alpha> * x + \<beta> * y) * c) a b)
      = (\<alpha>\<^sup>2 * sum_sq a + 2 * \<alpha> * \<beta> * dot a b + \<beta>\<^sup>2 * sum_sq b) * c\<^sup>2"
  by (induction a b rule: list_induct2) (simp_all add: power2_eq_square algebra_simps)

lemma mobius_add_row_lin:
  "mobius_add_row a b
    = map2 (\<lambda>x y. ((1 + 2 * dot a b + sum_sq b) * x + (1 - sum_sq a) * y)
                    * (1 / (1 + 2 * dot a b + sum_sq a * sum_sq b))) a b"
  by (simp add: mobius_add_row_def Let_def zip_map_map map_zip_map map_zip_map2 split_def)

lemma mobius_cancel_real:
  fixes A B D :: real
  assumes D: "D \<noteq> 0" and A: "A \<noteq> 1"
    and m: "m = (D - 1 - A * B) / 2"
    and al: "\<alpha> = 1 + 2 * m + B" and be: "\<beta> = 1 - A"
    and dp: "dp = (\<alpha> * A + \<beta> * m) * (1 / D)"
    and P: "P = (\<alpha>\<^sup>2 * A + 2 * \<alpha> * \<beta> * m + \<beta>\<^sup>2 * B) * (1 / D)\<^sup>2"
  shows "1 - 2 * dp + A * P = (1 - A)\<^sup>2 / D"
    and "(1 - A) * \<alpha> * (1 / D) - (1 - 2 * dp + P) = 0"
  using D A unfolding dp P al be m
  by (simp_all add: power2_eq_square field_simps)

lemma map2_lin_compose:
  fixes a b :: "real list"
  shows "length a = length b \<Longrightarrow>
    map2 (\<lambda>x y. (\<alpha>' * x + \<beta>' * y) * c') (map uminus a) (map2 (\<lambda>x y. (\<alpha> * x + \<beta> * y) * c) a b)
     = map2 (\<lambda>x y. ((\<beta>' * \<alpha> * c - \<alpha>') * c') * x + (\<beta>' * \<beta> * c * c') * y) a b"
  by (induction a b rule: list_induct2) (simp_all add: algebra_simps)

lemma map2_snd:
  fixes a b :: "real list"
  shows "length a = length b \<Longrightarrow> map2 (\<lambda>x y. 0 * x + 1 * y) a b = b"
  by (induction a b rule: list_induct2) simp_all

lemma mobius_add_row_left_cancel:
  assumes len: "length a = length b"
    and D: "1 + 2 * dot a b + sum_sq a * sum_sq b \<noteq> 0"
    and A: "sum_sq a \<noteq> 1"
  shows "mobius_add_row (map uminus a) (mobius_add_row a b) = b"
proof -
  define m where "m = dot a b"
  define D where "D = 1 + 2 * m + sum_sq a * sum_sq b"
  define \<alpha> where "\<alpha> = 1 + 2 * m + sum_sq b"
  define \<beta> where "\<beta> = 1 - sum_sq a"
  define p where "p = map2 (\<lambda>x y. (\<alpha> * x + \<beta> * y) * (1 / D)) a b"
  define dp where "dp = (\<alpha> * sum_sq a + \<beta> * m) * (1 / D)"
  define P where "P = (\<alpha>\<^sup>2 * sum_sq a + 2 * \<alpha> * \<beta> * m + \<beta>\<^sup>2 * sum_sq b) * (1 / D)\<^sup>2"
  have D0: "D \<noteq> 0" using D by (simp add: D_def m_def)
  have p: "mobius_add_row a b = p"
    by (simp add: mobius_add_row_lin p_def \<alpha>_def \<beta>_def D_def m_def)
  have dot_p: "dot (map uminus a) p = - dp"
    by (simp only: dot_uminus_left p_def dp_def dot_map2_lin [OF len] m_def)
  have sq_p: "sum_sq p = P"
    by (simp only: p_def P_def sum_sq_map2_lin [OF len] m_def)
  have m': "m = (D - 1 - sum_sq a * sum_sq b) / 2"
    by (simp add: D_def)
  have den: "1 - 2 * dp + sum_sq a * P = (1 - sum_sq a)\<^sup>2 / D"
    and num: "(1 - sum_sq a) * \<alpha> * (1 / D) - (1 - 2 * dp + P) = 0"
    using mobius_cancel_real [OF D0 A m' \<alpha>_def \<beta>_def dp_def P_def] by simp_all
  have one: "(1 - sum_sq a) * \<beta> * (1 / D) * (1 / (1 - 2 * dp + sum_sq a * P)) = 1"
    using D0 A by (simp add: den \<beta>_def power2_eq_square)
  have "mobius_add_row (map uminus a) p
      = map2 (\<lambda>x y. ((1 - 2 * dp + P) * x + (1 - sum_sq a) * y)
                    * (1 / (1 - 2 * dp + sum_sq a * P))) (map uminus a) p"
    by (simp add: mobius_add_row_lin dot_p sq_p sum_sq_uminus)
  also have "\<dots> = map2 (\<lambda>x y. (((1 - sum_sq a) * \<alpha> * (1 / D) - (1 - 2 * dp + P))
                     * (1 / (1 - 2 * dp + sum_sq a * P))) * x
                  + ((1 - sum_sq a) * \<beta> * (1 / D) * (1 / (1 - 2 * dp + sum_sq a * P))) * y) a b"
    unfolding p_def by (rule map2_lin_compose [OF len])
  also have "\<dots> = map2 (\<lambda>x y. 0 * x + 1 * y) a b"
    by (simp only: num one mult_zero_left)
  also have "\<dots> = b"
    by (rule map2_snd [OF len])
  finally show ?thesis by (simp add: p)
qed

lemma mobius_den_pos:
  assumes len: "length a = length b" and a: "sum_sq a < 1" and b: "sum_sq b < 1"
  shows "0 < 1 + 2 * dot a b + sum_sq a * sum_sq b"
proof -
  have "0 \<le> sum_sq a + sum_sq b + 2 * dot a b"
    using gram_psd [of a b b 1 1 0] len by simp
  moreover have "0 < (1 - sum_sq a) * (1 - sum_sq b)"
    using a b by (intro mult_pos_pos) simp_all
  ultimately show ?thesis by (simp add: algebra_simps)
qed

lemma mobius_norm_real:
  fixes A B D :: real
  assumes D: "D \<noteq> 0"
    and m: "m = (D - 1 - A * B) / 2"
    and al: "\<alpha> = 1 + 2 * m + B" and be: "\<beta> = 1 - A"
  shows "1 - (\<alpha>\<^sup>2 * A + 2 * \<alpha> * \<beta> * m + \<beta>\<^sup>2 * B) * (1 / D)\<^sup>2 = (1 - A) * (1 - B) / D"
  using D unfolding al be m
  by (simp add: power2_eq_square field_simps)

lemma mobius_add_row_in_ball:
  assumes len: "length a = length b" and a: "sum_sq a < 1" and b: "sum_sq b < 1"
  shows "sum_sq (mobius_add_row a b) < 1"
proof -
  define D where "D = 1 + 2 * dot a b + sum_sq a * sum_sq b"
  have D: "0 < D"
    unfolding D_def by (rule mobius_den_pos [OF len a b])
  have m: "dot a b = (D - 1 - sum_sq a * sum_sq b) / 2"
    by (simp add: D_def)
  have "sum_sq (mobius_add_row a b)
      = ((1 + 2 * dot a b + sum_sq b)\<^sup>2 * sum_sq a
          + 2 * (1 + 2 * dot a b + sum_sq b) * (1 - sum_sq a) * dot a b
          + (1 - sum_sq a)\<^sup>2 * sum_sq b) * (1 / D)\<^sup>2"
    by (simp only: mobius_add_row_lin sum_sq_map2_lin [OF len] D_def)
  then have "1 - sum_sq (mobius_add_row a b) = (1 - sum_sq a) * (1 - sum_sq b) / D"
    using mobius_norm_real [of D "dot a b" "sum_sq a" "sum_sq b", OF _ m refl refl] D by simp
  moreover have "0 < (1 - sum_sq a) * (1 - sum_sq b) / D"
    using a b D by (intro divide_pos_pos mult_pos_pos) simp_all
  ultimately show ?thesis by simp
qed

lemma tanh_lower: "0 \<le> x \<Longrightarrow> 1 - 1 / (1 + x) \<le> tanh (x::real)"
proof -
  assume x: "0 \<le> x"
  define E where "E = exp (2 * x)"
  have E: "0 < E" by (simp add: E_def)
  have "exp (- 2 * x) = 1 / E"
    by (simp add: E_def exp_minus inverse_eq_divide)
  then have "tanh x = (1 - 1 / E) / (1 + 1 / E)"
    by (simp add: tanh_real_altdef)
  also have "\<dots> = ((E - 1) / E) / ((E + 1) / E)"
    using E by (simp add: diff_divide_distrib add_divide_distrib)
  also have "\<dots> = (E - 1) / (E + 1)"
    using E by simp
  also have "\<dots> = 1 - 2 / (E + 1)"
  proof -
    have "E + 1 \<noteq> 0" using E by simp
    then show ?thesis by (simp add: field_simps)
  qed
  finally have t: "tanh x = 1 - 2 / (E + 1)" .
  have "1 + 2 * x \<le> E"
    unfolding E_def by (rule exp_ge_add_one_self)
  then have "2 / (E + 1) \<le> 2 / (2 + 2 * x)"
    using x by (intro divide_left_mono) (auto intro!: mult_pos_pos add_pos_nonneg)
  also have "\<dots> = 1 / (1 + x)"
    using x by (simp add: field_simps)
  finally show ?thesis using t by linarith
qed

lemma sum_sq_scale: "sum_sq (map (\<lambda>x. x * k) v) = sum_sq v * k\<^sup>2"
  by (induction v) (simp_all add: power_mult_distrib algebra_simps)

lemma exp_operand_nonzero:
  assumes "\<not> isclose (dot v v) 0"
  shows "exp_operand v b
    = map (\<lambda>x. x * (tanh (linalg_norm v / (1 - sum_sq b)) / linalg_norm v)) v"
  using assms sum_sq_nonneg [of b]
  by (simp add: exp_operand_def Let_def linalg_norm_def)

lemma not_isclose_norm:
  assumes "\<not> isclose (dot v v) 0"
  shows "1 / 10 ^ 4 < linalg_norm v"
proof -
  have "1 / 10 ^ 8 < sum_sq v"
    using assms sum_sq_nonneg [of v] by (simp add: isclose_def dot_self)
  then have "sqrt (1 / 10 ^ 8) < sqrt (sum_sq v)"
    by (rule real_sqrt_less_mono)
  moreover have "sqrt (1 / 10 ^ 8) = (1 / 10 ^ 4 :: real)"
    by (rule real_sqrt_unique) (simp_all add: power2_eq_square)
  ultimately show ?thesis by (simp only: linalg_norm_def)
qed

lemma tanh_operand_bound:
  fixes n B :: real
  assumes n: "1 / 10 ^ 4 < n" and B: "0 \<le> B" "B < 1"
  shows "1 / 10 ^ 8 < tanh (n / (1 - B))"
proof -
  have "n \<le> n / (1 - B)"
    using n B by (simp add: field_simps)
  then have "(1 / 10 ^ 4 :: real) \<le> n / (1 - B)"
    using n by linarith
  then have "tanh (1 / 10 ^ 4 :: real) \<le> tanh (n / (1 - B))"
    by (simp only: tanh_real_le_iff)
  moreover have "1 - 1 / (1 + 1 / 10 ^ 4) \<le> tanh (1 / 10 ^ 4 :: real)"
    by (rule tanh_lower) simp
  moreover have "(1 / 10 ^ 8 :: real) < 1 - 1 / (1 + 1 / 10 ^ 4)"
    by simp
  ultimately show ?thesis by linarith
qed

lemma log_row_exp_operand:
  assumes nz: "\<not> isclose (dot v v) 0" and b: "sum_sq b < 1"
  shows "log_row (exp_operand v b) b = v"
proof -
  define n where "n = linalg_norm v"
  define t where "t = tanh (n / (1 - sum_sq b))"
  have n: "1 / 10 ^ 4 < n"
    unfolding n_def by (rule not_isclose_norm [OF nz])
  have t: "1 / 10 ^ 8 < t"
    unfolding t_def by (rule tanh_operand_bound [OF n sum_sq_nonneg b])
  have n2: "sum_sq v = n\<^sup>2"
    using sum_sq_nonneg [of v] by (simp add: n_def linalg_norm_def)
  have u: "exp_operand v b = map (\<lambda>x. x * (t / n)) v"
    using nz by (simp add: exp_operand_nonzero t_def n_def)
  have "sum_sq (exp_operand v b) = sum_sq v * (t / n)\<^sup>2"
    by (simp only: u sum_sq_scale)
  also have "\<dots> = t\<^sup>2"
    using n by (simp add: n2 power_divide)
  finally have norm_u: "linalg_norm (exp_operand v b) = t"
    using t by (simp add: linalg_norm_def)
  have nb: "(linalg_norm b)\<^sup>2 = sum_sq b"
    using sum_sq_nonneg [of b] by (simp add: linalg_norm_def)
  have sc: "(1 - sum_sq b) * artanh t = n"
    using b by (simp add: t_def artanh_tanh_real)
  have "log_row (exp_operand v b) b = map (\<lambda>x. n * (x / t)) (exp_operand v b)"
    using t by (simp add: log_row_def Let_def norm_u nb sc isclose_def)
  also have "\<dots> = map (\<lambda>x. x) v"
    using t n by (simp add: u comp_def)
  finally show ?thesis by simp
qed

lemma exp_operand_length: "length (exp_operand v b) = length v"
  by (simp add: exp_operand_def Let_def)

lemma log_of_row_exp_row:
  assumes len: "length v = length b" and b: "sum_sq b < 1" and u: "sum_sq (exp_operand v b) < 1"
  shows "log_of_row (exp_row v b) b = (if isclose (dot v v) 0 then replicate (length b) 0 else v)"
proof (cases "isclose (dot v v) 0")
  case True
  then show ?thesis by (simp add: exp_row_def log_of_row_self)
next
  case False
  have l: "length b = length (exp_operand v b)"
    by (simp add: exp_operand_length len)
  have "0 < 1 + 2 * dot b (exp_operand v b) + sum_sq b * sum_sq (exp_operand v b)"
    by (rule mobius_den_pos [OF l b u])
  then have "mobius_add_row (map uminus b) (mobius_add_row b (exp_operand v b)) = exp_operand v b"
    using b by (intro mobius_add_row_left_cancel [OF l]) simp_all
  then show ?thesis
    using False b by (simp add: exp_row_def log_of_row_def log_row_exp_operand)
qed

lemma tanh_sq_bound:
  fixes t :: real
  assumes "0 \<le> t" "t \<le> 1 - 2 / (3 ^ 12 + 1)"
  shows "t\<^sup>2 < 1 - TOLERANCE"
proof -
  have "t\<^sup>2 \<le> (1 - 2 / (3 ^ 12 + 1))\<^sup>2"
    using assms by (intro power_mono) simp_all
  also have "\<dots> < 1 - TOLERANCE"
    by (simp add: TOLERANCE_def power2_eq_square)
  finally show ?thesis .
qed

lemma exp_operand_unit: "exp_operand [1, 0] [0, 0] = [tanh 1, 0]"
  by (simp add: exp_operand_def Let_def linalg_norm_single isclose_def)

lemma tanh_1_bounds: "0 \<le> tanh (1::real)" "tanh (1::real) \<le> 1 - 2 / (3 ^ 12 + 1)"
proof -
  show "0 \<le> tanh (1::real)" by simp
  have "tanh (real 1) \<le> 1 - 2 / (3 ^ (2 * 1) + 1)"
    by (rule tanh_of_nat_upper)
  then show "tanh (1::real) \<le> 1 - 2 / (3 ^ 12 + 1)" by simp
qed

lemma exp_row_unit: "exp_row [1, 0] [0, 0] = [tanh 1, 0]"
  by (simp add: exp_row_def isclose_def exp_operand_unit mobius_add_row_lin)

lemma tanh_6_bounds: "4095 / 4097 \<le> tanh (6::real)" "tanh (6::real) \<le> 1 - 2 / (3 ^ 12 + 1)"
proof -
  have "1 - 2 / (2 ^ (2 * 6) + 1) \<le> tanh (real 6)"
    by (rule tanh_of_nat_lower)
  then show "4095 / 4097 \<le> tanh (6::real)" by simp
  have "tanh (real 6) \<le> 1 - 2 / (3 ^ (2 * 6) + 1)"
    by (rule tanh_of_nat_upper)
  then show "tanh (6::real) \<le> 1 - 2 / (3 ^ 12 + 1)" by simp
qed

lemma exp_operand_near_boundary:
  "exp_operand [119994 / 10 ^ 8, 0] [9999 / 10000, 0] = [tanh 6, 0]"
proof -
  have "\<not> isclose (dot [119994 / 10 ^ 8, 0] [119994 / 10 ^ 8, 0]) 0"
    by (simp add: isclose_def)
  then show ?thesis
    by (simp add: exp_operand_nonzero linalg_norm_single power2_eq_square)
qed

lemma mobius_near_boundary:
  fixes t :: real
  assumes t: "4095 / 4097 \<le> t" "t < 1"
  shows "1 - 1 / 10 ^ 7 \<le> ((1 + 2 * (9999 / 10000 * t) + t\<^sup>2) * (9999 / 10000)
            + (1 - (9999 / 10000)\<^sup>2) * t)
          * (1 / (1 + 2 * (9999 / 10000 * t) + (9999 / 10000)\<^sup>2 * t\<^sup>2))"
proof -
  define \<beta> :: real where "\<beta> = 9999 / 10000"
  have pos: "0 < 1 + \<beta> * t"
    using t by (simp add: \<beta>_def)
  have num: "(1 + 2 * (\<beta> * t) + t\<^sup>2) * \<beta> + (1 - \<beta>\<^sup>2) * t = (\<beta> + t) * (1 + \<beta> * t)"
    by (simp add: power2_eq_square algebra_simps)
  have den: "1 + 2 * (\<beta> * t) + \<beta>\<^sup>2 * t\<^sup>2 = (1 + \<beta> * t) * (1 + \<beta> * t)"
    by (simp add: power2_eq_square algebra_simps)
  have "((1 + 2 * (\<beta> * t) + t\<^sup>2) * \<beta> + (1 - \<beta>\<^sup>2) * t) * (1 / (1 + 2 * (\<beta> * t) + \<beta>\<^sup>2 * t\<^sup>2))
      = (\<beta> + t) / (1 + \<beta> * t)"
    using pos by (simp only: num den) simp
  moreover have "1 - 1 / 10 ^ 7 \<le> (\<beta> + t) / (1 + \<beta> * t)"
    using pos t by (simp add: pos_le_divide_eq \<beta>_def algebra_simps)
  ultimately show ?thesis by (simp add: \<beta>_def)
qed

lemma mobius_add_row_axis:
  "mobius_add_row [\<beta>, 0] [t, 0]
    = [((1 + 2 * (\<beta> * t) + t\<^sup>2) * \<beta> + (1 - \<beta>\<^sup>2) * t)
        * (1 / (1 + 2 * (\<beta> * t) + \<beta>\<^sup>2 * t\<^sup>2)), 0]"
  by (simp add: mobius_add_row_lin)

text \<open>
  Claim C6, as the spec states it, fails. The base point \<open>(0.9999, 0)\<close> passes
  the membership test, the tangent vector \<open>(0.00119994, 0)\<close> is small and not
  close to zero, and the operand \<open>(tanh 6, 0)\<close> of the Moebius addition passes the
  test; \<^verbatim>\<open>exp\<close> returns a point whose squared norm is at least \<open>1 - TOLERANCE\<close>,
  and \<^verbatim>\<open>log\<close> of that point raises \<^verbatim>\<open>NameError\<close> instead of returning the tangent
  vector.
\<close>

theorem log_exp_round_trip_counterexample:
  "gs_all (belongs [[9999 / 10000, 0]] TOLERANCE)
    \<and> \<not> isclose (dot [119994 / 10 ^ 8, 0] [119994 / 10 ^ 8, 0]) 0
    \<and> sum_sq (exp_operand [119994 / 10 ^ 8, 0] [9999 / 10000, 0]) < 1 - TOLERANCE
    \<and> exp_ball (Vector [119994 / 10 ^ 8, 0]) (Vector [9999 / 10000, 0])
        = Inr [exp_row [119994 / 10 ^ 8, 0] [9999 / 10000, 0]]
    \<and> log_exp (Vector [119994 / 10 ^ 8, 0]) (Vector [9999 / 10000, 0]) = Inl NameError"
proof -
  define v :: vec where "v = [119994 / 10 ^ 8, 0]"
  define b :: vec where "b = [9999 / 10000, 0]"
  have b_ok: "sum_sq b < 1 - TOLERANCE"
    by (simp add: b_def TOLERANCE_def power2_eq_square)
  have nz: "\<not> isclose (dot v v) 0"
    by (simp add: v_def isclose_def)
  have op: "exp_operand v b = [tanh 6, 0]"
    unfolding v_def b_def by (rule exp_operand_near_boundary)
  have t0: "0 \<le> tanh (6::real)" by simp
  have u_ok: "sum_sq (exp_operand v b) < 1 - TOLERANCE"
    using tanh_sq_bound [OF t0 tanh_6_bounds(2)] by (simp add: op)
  have e: "exp_ball (Vector v) (Vector b) = Inr [exp_row v b]"
    using exp_ball_rows [of "Vector v" "Vector b"] b_ok u_ok by simp
  define P :: real where "P = ((1 + 2 * (9999 / 10000 * tanh 6) + (tanh 6)\<^sup>2) * (9999 / 10000)
            + (1 - (9999 / 10000)\<^sup>2) * tanh 6)
          * (1 / (1 + 2 * (9999 / 10000 * tanh 6) + (9999 / 10000)\<^sup>2 * (tanh 6)\<^sup>2))"
  have "exp_row v b = mobius_add_row b [tanh 6, 0]"
    using nz by (simp add: exp_row_def op)
  also have "\<dots> = [P, 0]"
    unfolding b_def P_def by (rule mobius_add_row_axis)
  finally have row: "exp_row v b = [P, 0]" .
  have "1 - 1 / 10 ^ 7 \<le> P"
    unfolding P_def by (rule mobius_near_boundary [OF tanh_6_bounds(1) tanh_real_lt_1])
  then have "(1 - 1 / 10 ^ 7)\<^sup>2 \<le> P\<^sup>2"
    by (intro power_mono) simp_all
  then have "\<not> sum_sq (exp_row v b) < 1 - TOLERANCE"
    by (simp add: row TOLERANCE_def power2_eq_square)
  then have "mobius_add (Matrix (map (map uminus) [b])) (Matrix [exp_row v b]) = Inl NameError"
    by (intro mobius_add_invalid) simp
  then have "log_exp (Vector v) (Vector b) = Inl NameError"
    by (simp add: log_exp_def e log_ball_def Let_def)
  then show ?thesis
    using b_ok nz u_ok e by (simp add: gs_all_belongs v_def b_def)
qed

text \<open>
  Claim C6, amended. Let \<open>b\<close> pass the membership test and let \<open>v\<close> be a tangent
  vector of the same dimension such that both the operand of the Moebius addition
  and the point \<open>exp(v, b)\<close> pass it too. Then \<^verbatim>\<open>exp\<close> returns that point and
  \<^verbatim>\<open>log(exp(v, b), b)\<close> returns \<open>v\<close> itself when the squared norm of \<open>v\<close> is
  not close to zero, and the zero vector when it is, which is then at most
  \<open>10\<^sup>-\<^sup>4\<close> away from \<open>v\<close>. The proof is the left cancellation law
  \<open>(-b) \<oplus> (b \<oplus> u) = u\<close> of the Moebius addition and \<open>artanh (tanh x) = x\<close>.
\<close>

theorem log_exp_round_trip:
  assumes len: "length v = length b"
    and b: "sum_sq b < 1 - TOLERANCE"
    and u: "sum_sq (exp_operand v b) < 1 - TOLERANCE"
    and p: "sum_sq (exp_row v b) < 1 - TOLERANCE"
  shows "exp_ball (Vector v) (Vector b) = Inr [exp_row v b]
    \<and> log_exp (Vector v) (Vector b)
        = Inr [if isclose (dot v v) 0 then replicate (length b) 0 else v]
    \<and> (isclose (dot v v) 0 \<longrightarrow> sum_sq v \<le> 1 / 10 ^ 8)"
proof (intro conjI)
  show e: "exp_ball (Vector v) (Vector b) = Inr [exp_row v b]"
    using exp_ball_rows [of "Vector v" "Vector b"] b u by simp
  have "log_ball (Matrix [exp_row v b]) (Vector b) = Inr [log_of_row (exp_row v b) b]"
    using log_ball_rows [of "Matrix [exp_row v b]" "Vector b"] b p by simp
  moreover have "sum_sq b < 1" "sum_sq (exp_operand v b) < 1"
    using b u by (simp_all add: TOLERANCE_def)
  ultimately show "log_exp (Vector v) (Vector b)
        = Inr [if isclose (dot v v) 0 then replicate (length b) 0 else v]"
    by (simp add: log_exp_def e log_of_row_exp_row [OF len])
  show "isclose (dot v v) 0 \<longrightarrow> sum_sq v \<le> 1 / 10 ^ 8"
    using sum_sq_nonneg [of v] by (simp add: isclose_def dot_self)
qed

theorem log_exp_round_trip_witness:
  "exp_ball (Vector [1, 0]) (Vector [0, 0]) = Inr [[tanh 1, 0]]
    \<and> log_exp (Vector [1, 0]) (Vector [0, 0]) = Inr [[1, 0]]"
proof -
  have "sum_sq [tanh (1::real), 0] < 1 - TOLERANCE"
    using tanh_sq_bound [OF tanh_1_bounds] by simp
  then show ?thesis
    using log_exp_round_trip [of "[1, 0]" "[0, 0]"]
    by (simp add: exp_operand_unit exp_row_unit isclose_def TOLERANCE_def)
qed

end
